(* ===== verification/Prelude.thy ===== *)
theory Prelude
  imports Main "HOL-Library.Word" "HOL-Library.Multiset"
begin

text \<open>
  Shared vocabulary of the development.

  \<^item> names for Go's sized integers and for byte slices;
  \<^item> the outcome of a Go call that may return an error or panic;
  \<^item> the fixed-width encodings of \<^verbatim>\<open>encoding/binary\<close> that every codec of the
    packet layer is built from, with their round trips;
  \<^item> generic facts on lists and words that several components use;
  \<^item> \<open>transition_system\<close>: the interface of a component with a state invariant, and the
    lifting of that invariant to every sequence of operations.
\<close>

unbundle bit_operations_syntax

section \<open>Sized integers, bytes and outcomes\<close>

type_synonym u8 = "8 word"
type_synonym u16 = "16 word"
type_synonym u32 = "32 word"
type_synonym u64 = "64 word"
type_synonym bytes = "u8 list"

text \<open>
  A Go function that returns an \<open>error\<close> yields \<open>Inl (Err e)\<close>; a run-time panic (an
  index out of range, a nil dereference) is the separate outcome \<open>Inl Panic\<close>.
\<close>

datatype 'e fault = Err 'e | Panic

type_synonym ('e, 'a) result = "'e fault + 'a"

named_theorems codec \<open>rewrite rules for reading back encoded fields\<close>
named_theorems word_nat \<open>rules that move word arithmetic to natural numbers\<close>

lemmas word_to_nat [word_nat] = word_le_nat_alt word_less_nat_alt unat_word_ariths

lemma bit_u8_ge [simp]: "8 \<le> n \<Longrightarrow> \<not> bit (x :: u8) n"
  by (auto dest: bit_imp_le_length)

lemma bit_u16_ge [simp]: "16 \<le> n \<Longrightarrow> \<not> bit (x :: u16) n"
  by (auto dest: bit_imp_le_length)

lemma bit_u32_ge [simp]: "32 \<le> n \<Longrightarrow> \<not> bit (x :: u32) n"
  by (auto dest: bit_imp_le_length)

lemma unat_lt_u32: "unat (x :: u32) < 4294967296"
  using unsigned_less [of x] by simp

lemma unat_lt_u64: "unat (x :: u64) < 18446744073709551616"
  using unsigned_less [of x] by simp

lemma unat_exp: "k < LENGTH('a) \<Longrightarrow> unat (2 ^ k :: 'a :: len word) = 2 ^ k"
  using unsigned_of_nat [of "2 ^ k", where ?'b = 'a and ?'a = nat]
  by (simp add: take_bit_nat_eq_self)

lemma word_less_exp_iff_take_bit:
  "k < LENGTH('a) \<Longrightarrow> (x :: 'a :: len word) < 2 ^ k \<longleftrightarrow> take_bit k x = x"
  by (simp add: word_less_nat_alt word_unat_eq_iff unsigned_take_bit_eq take_bit_nat_eq_self_iff
      unat_exp)

lemma word_less_exp_bit:
  "(x :: 'a :: len word) < 2 ^ k \<Longrightarrow> k < LENGTH('a) \<Longrightarrow> k \<le> n \<Longrightarrow> \<not> bit x n"
  by (metis bit_take_bit_iff not_less word_less_exp_iff_take_bit)

lemma and_bit_neq_0: "(x :: 'a :: len word) AND push_bit k 1 \<noteq> 0 \<longleftrightarrow> bit x k"
  by (simp add: bit_iff_and_push_bit_not_eq_0)

lemma u8_and_masks:
  "(x :: u8) AND 0x80 \<noteq> 0 \<longleftrightarrow> bit x 7" "x AND 0x20 \<noteq> 0 \<longleftrightarrow> bit x 5" "x AND 0x04 \<noteq> 0 \<longleftrightarrow> bit x 2"
  using and_bit_neq_0 [of x 7] and_bit_neq_0 [of x 5] and_bit_neq_0 [of x 2] by simp_all

lemma bit_single_int:
  "bit (4 :: int) m \<longleftrightarrow> m = 2" "bit (32 :: int) m \<longleftrightarrow> m = 5" "bit (128 :: int) m \<longleftrightarrow> m = 7"
  using bit_exp_iff [of 2 m, where ?'a = int] bit_exp_iff [of 5 m, where ?'a = int]
    bit_exp_iff [of 7 m, where ?'a = int] by auto

lemma two_bit_field: "ucast (drop_bit k ((x :: u8) AND push_bit k (mask 2))) < (2 ^ 2 :: u64)"
proof -
  have "take_bit 2 (ucast (drop_bit k (x AND push_bit k (mask 2))) :: u64) =
    ucast (drop_bit k (x AND push_bit k (mask 2)))"
    by (rule bit_word_eqI) (auto simp: bit_simps)
  then show ?thesis by (subst word_less_exp_iff_take_bit) simp_all
qed

section \<open>encoding/binary\<close>

text \<open>
  \<open>BigEndian.PutUint16/32\<close>, \<open>BigEndian.Uint16/32\<close> and \<open>LittleEndian.Uint32\<close>. The
  readers take the slice and the offset of \<^verbatim>\<open>data[i:]\<close>; they are used behind a length
  guard, and where the source has no guard the caller models the panic.
\<close>

definition put16 :: "u16 \<Rightarrow> bytes" where
  "put16 x = [ucast (drop_bit 8 x), ucast x]"

definition put32 :: "u32 \<Rightarrow> bytes" where
  "put32 x = [ucast (drop_bit 24 x), ucast (drop_bit 16 x), ucast (drop_bit 8 x), ucast x]"

definition be16 :: "bytes \<Rightarrow> nat \<Rightarrow> u16" where
  "be16 b i = ucast (b ! (i + 1)) OR push_bit 8 (ucast (b ! i))"

definition be32 :: "bytes \<Rightarrow> nat \<Rightarrow> u32" where
  "be32 b i = ucast (b ! (i + 3)) OR push_bit 8 (ucast (b ! (i + 2)))
     OR push_bit 16 (ucast (b ! (i + 1))) OR push_bit 24 (ucast (b ! i))"

definition le32 :: "bytes \<Rightarrow> nat \<Rightarrow> u32" where
  "le32 b i = ucast (b ! i) OR push_bit 8 (ucast (b ! (i + 1)))
     OR push_bit 16 (ucast (b ! (i + 2))) OR push_bit 24 (ucast (b ! (i + 3)))"

lemma length_put16 [simp]: "length (put16 x) = 2"
  by (simp add: put16_def)

lemma length_put32 [simp]: "length (put32 x) = 4"
  by (simp add: put32_def)

lemma join16:
  "ucast (ucast x :: u8) OR push_bit 8 (ucast (ucast (drop_bit 8 x) :: u8)) = (x :: u16)"
  (is "?l = x")
proof (rule bit_word_eqI)
  fix n assume "n < LENGTH(16)"
  then have "n < 8 \<or> 8 \<le> n \<and> n < 16" by auto
  then show "bit ?l n = bit x n"
    by (elim disjE) (auto simp: bit_simps)
qed

lemma join32:
  "ucast (ucast x :: u8) OR push_bit 8 (ucast (ucast (drop_bit 8 x) :: u8))
     OR push_bit 16 (ucast (ucast (drop_bit 16 x) :: u8))
     OR push_bit 24 (ucast (ucast (drop_bit 24 x) :: u8)) = (x :: u32)"
  (is "?l = x")
proof (rule bit_word_eqI)
  fix n assume "n < LENGTH(32)"
  then have "n < 8 \<or> 8 \<le> n \<and> n < 16 \<or> 16 \<le> n \<and> n < 24 \<or> 24 \<le> n \<and> n < 32"
    by auto
  then show "bit ?l n = bit x n"
    by (elim disjE) (auto simp: bit_simps)
qed

text \<open>Reading a field back: a reader at its field, and a reader that skips what stands before it.\<close>

lemma be16_at [codec]: "be16 (put16 x @ ys) 0 = x" "be16 (put16 x) 0 = x"
  by (simp_all add: be16_def put16_def join16)

lemma be32_at [codec]: "be32 (put32 x @ ys) 0 = x" "be32 (put32 x) 0 = x"
  by (simp_all add: be32_def put32_def numeral_2_eq_2 numeral_3_eq_3 join32)

lemma be16_drop: "length xs \<le> i \<Longrightarrow> be16 (xs @ ys) i = be16 ys (i - length xs)"
  by (simp add: be16_def nth_append Suc_diff_le)

lemma be32_drop: "length xs \<le> i \<Longrightarrow> be32 (xs @ ys) i = be32 ys (i - length xs)"
  by (simp add: be32_def nth_append Suc_diff_le)

lemma le32_drop: "length xs \<le> i \<Longrightarrow> le32 (xs @ ys) i = le32 ys (i - length xs)"
  by (simp add: le32_def nth_append Suc_diff_le)

lemma be_skip [codec]:
  "2 \<le> i \<Longrightarrow> be16 (put16 x @ ys) i = be16 ys (i - 2)"
  "4 \<le> i \<Longrightarrow> be16 (put32 y @ ys) i = be16 ys (i - 4)"
  "1 \<le> i \<Longrightarrow> be16 (z # ys) i = be16 ys (i - 1)"
  "2 \<le> i \<Longrightarrow> be32 (put16 x @ ys) i = be32 ys (i - 2)"
  "4 \<le> i \<Longrightarrow> be32 (put32 y @ ys) i = be32 ys (i - 4)"
  "1 \<le> i \<Longrightarrow> be32 (z # ys) i = be32 ys (i - 1)"
  using be16_drop [of "put16 x" i ys] be16_drop [of "put32 y" i ys] be16_drop [of "[z]" i ys]
    be32_drop [of "put16 x" i ys] be32_drop [of "put32 y" i ys] be32_drop [of "[z]" i ys]
  by simp_all

lemma put16_be16: "Suc i < length b \<Longrightarrow> put16 (be16 b i) = [b ! i, b ! (i + 1)]"
  by (auto simp: be16_def put16_def bit_simps intro!: bit_word_eqI)

lemma put32_be32: "put32 (be32 b i) = [b ! i, b ! (i + 1), b ! (i + 2), b ! (i + 3)]"
  by (auto simp: be32_def put32_def bit_simps intro!: bit_word_eqI)

lemma be16_two: "be16 (a # b # ys) 0 = ucast b OR push_bit 8 (ucast a)"
  by (simp add: be16_def)

lemma take_16:
  assumes "16 \<le> length b"
  shows "take 16 b = [b ! 0, b ! 1, b ! 2, b ! 3, b ! 4, b ! 5, b ! 6, b ! 7, b ! 8, b ! 9, b ! 10,
    b ! 11, b ! 12, b ! 13, b ! 14, b ! 15]"
proof -
  have "take 16 b = map ((!) b) [0..<16]"
    using assms by (intro nth_equalityI) auto
  then show ?thesis by (simp add: upt_rec eval_nat_numeral)
qed

lemma bit_be32: "n < 32 \<Longrightarrow> bit (be32 b i) n =
   (if n < 8 then bit (b ! (i + 3)) n else if n < 16 then bit (b ! (i + 2)) (n - 8)
    else if n < 24 then bit (b ! (i + 1)) (n - 16) else bit (b ! i) (n - 24))"
  by (auto simp: be32_def bit_simps)

lemma be32_small: "\<not> bit (b ! i) 7 \<Longrightarrow> be32 b i \<le> 0x7FFFFFFF"
proof -
  assume b: "\<not> bit (b ! i) 7"
  have "take_bit 31 (be32 b i) = be32 b i"
  proof (rule bit_word_eqI)
    fix n assume "n < LENGTH(32)"
    then have "n < 31 \<or> n = 31" by auto
    then show "bit (take_bit 31 (be32 b i)) n = bit (be32 b i) n"
      using b by (auto simp: bit_take_bit_iff bit_be32)
  qed
  then show ?thesis
    using word_less_exp_iff_take_bit [of 31 "be32 b i"] by (simp add: word_less_nat_alt word_le_nat_alt)
qed

section \<open>Lists\<close>

lemma list_split4:
  assumes "4 \<le> length xs"
  obtains a b c d ys where "xs = a # b # c # d # ys"
proof -
  from assms obtain a b c d ys where "xs = a # b # c # d # ys"
    by (auto simp: numeral_eq_Suc Suc_le_length_iff)
  then show thesis by (rule that)
qed

lemma sorted_wrt_take_drop:
  "sorted_wrt P xs \<Longrightarrow> sorted_wrt P (take n xs) \<and> sorted_wrt P (drop n xs)"
  by (metis append_take_drop_id sorted_wrt_append)

lemma sorted_wrt_filter_same: "sorted_wrt P xs \<Longrightarrow> sorted_wrt P (filter Q xs)"
  by (induction xs) auto

section \<open>sort.Slice\<close>

text \<open>
  Go's \<^verbatim>\<open>sort.Slice\<close> on short slices (at most twelve elements) is this insertion sort. On a
  longer slice the library sorts by other means; the result is the same whenever the order comes
  from a key that identifies the elements, which is the only case the lemmas below use.
\<close>

fun sift :: "('a \<Rightarrow> 'a \<Rightarrow> bool) \<Rightarrow> 'a \<Rightarrow> 'a list \<Rightarrow> 'a list" where
  "sift lt x [] = [x]"
| "sift lt x (y # ys) = (if lt x y then y # sift lt x ys else x # y # ys)"

definition sort_Slice :: "('a \<Rightarrow> 'a \<Rightarrow> bool) \<Rightarrow> 'a list \<Rightarrow> 'a list" where
  "sort_Slice lt xs = rev (fold (sift lt) xs [])"

lemma mset_sift [simp]: "mset (sift lt x ys) = add_mset x (mset ys)"
  by (induction ys) auto

lemma mset_sort_Slice [simp]: "mset (sort_Slice lt xs) = mset xs"
proof -
  have "mset (fold (sift lt) xs acc) = mset xs + mset acc" for acc
    by (induction xs arbitrary: acc) auto
  then show ?thesis by (simp add: sort_Slice_def)
qed

lemma set_sift [simp]: "set (sift lt x ys) = insert x (set ys)"
  by (induction ys) auto

lemma sift_sorted:
  fixes key :: "'a \<Rightarrow> nat"
  assumes "\<And>y. y \<in> set ys \<Longrightarrow> lt x y \<longleftrightarrow> key x < key y" and "sorted_wrt (\<lambda>a b. key b \<le> key a) ys"
  shows "sorted_wrt (\<lambda>a b. key b \<le> key a) (sift lt x ys)"
  using assms by (induction ys) (fastforce simp: not_less)+

lemma sort_Slice_sorted:
  fixes key :: "'a \<Rightarrow> nat"
  assumes "\<And>x y. x \<in> set xs \<Longrightarrow> y \<in> set xs \<Longrightarrow> lt x y \<longleftrightarrow> key x < key y"
  shows "sorted_wrt (\<lambda>a b. key a \<le> key b) (sort_Slice lt xs)"
proof -
  have "sorted_wrt (\<lambda>a b. key b \<le> key a) (fold (sift lt) ys acc)"
    if "set ys \<union> set acc \<subseteq> set xs" "sorted_wrt (\<lambda>a b. key b \<le> key a) acc" for ys acc
    using that
  proof (induction ys arbitrary: acc)
    case (Cons y ys)
    then have "sorted_wrt (\<lambda>a b. key b \<le> key a) (sift lt y acc)"
      using assms by (intro sift_sorted) auto
    with Cons show ?case by auto
  qed simp
  from this [of xs "[]"] show ?thesis by (simp add: sort_Slice_def sorted_wrt_rev)
qed

lemma sort_Slice_id:
  fixes key :: "'a \<Rightarrow> nat"
  assumes "\<And>x y. x \<in> set xs \<Longrightarrow> y \<in> set xs \<Longrightarrow> lt x y \<longleftrightarrow> key x < key y"
    and "sorted_wrt (\<lambda>a b. key a \<le> key b) xs"
  shows "sort_Slice lt xs = xs"
proof -
  have sift_id: "sift lt y acc = y # acc" if "acc \<noteq> [] \<longrightarrow> \<not> lt y (hd acc)" for y acc
    using that by (cases acc) auto
  have "fold (sift lt) ys (rev acc) = rev ys @ rev acc"
    if "set (acc @ ys) \<subseteq> set xs" "sorted_wrt (\<lambda>a b. key a \<le> key b) (acc @ ys)" for ys acc
    using that
  proof (induction ys arbitrary: acc)
    case (Cons y ys)
    have "\<not> lt y (last acc)" if "acc \<noteq> []"
      using Cons.prems assms(1) [of y "last acc"] last_in_set [OF that]
      by (auto simp: sorted_wrt_append subset_iff dest: leD)
    then have "sift lt y (rev acc) = rev (acc @ [y])"
      using sift_id [of "rev acc" y] by (simp add: hd_rev)
    then show ?case using Cons.IH [of "acc @ [y]"] Cons.prems by simp
  qed simp
  from this [of "[]" xs] show ?thesis using assms(2) by (simp add: sort_Slice_def)
qed

section \<open>Components with an invariant\<close>

text \<open>
  A component is a step function over its operations. \<open>ok s e\<close> is what the environment
  guarantees of operation \<open>e\<close> in state \<open>s\<close>; under it every operation keeps the invariant.
  The run of a list of operations then keeps it as well.
\<close>

fun run :: "('s \<Rightarrow> 'e \<Rightarrow> 's) \<Rightarrow> 's \<Rightarrow> 'e list \<Rightarrow> 's" where
  "run step s [] = s"
| "run step s (e # es) = run step (step s e) es"

fun run_ok :: "('s \<Rightarrow> 'e \<Rightarrow> 's) \<Rightarrow> ('s \<Rightarrow> 'e \<Rightarrow> bool) \<Rightarrow> 's \<Rightarrow> 'e list \<Rightarrow> bool" where
  "run_ok step ok s [] = True"
| "run_ok step ok s (e # es) = (ok s e \<and> run_ok step ok (step s e) es)"

lemma run_append: "run step s (es @ fs) = run step (run step s es) fs"
  by (induction es arbitrary: s) auto

lemma run_ok_append: "run_ok step ok s (es @ fs) \<longleftrightarrow> run_ok step ok s es \<and> run_ok step ok (run step s es) fs"
  by (induction es arbitrary: s) auto

locale transition_system =
  fixes step :: "'s \<Rightarrow> 'e \<Rightarrow> 's"
    and ok :: "'s \<Rightarrow> 'e \<Rightarrow> bool"
    and inv :: "'s \<Rightarrow> bool"
  assumes step_inv: "inv s \<Longrightarrow> ok s e \<Longrightarrow> inv (step s e)"
begin

lemma run_inv: "inv s \<Longrightarrow> run_ok step ok s es \<Longrightarrow> inv (run step s es)"
  by (induction es arbitrary: s) (auto intro: step_inv)

lemma run_ok_prefix_inv:
  "inv s \<Longrightarrow> run_ok step ok s (es @ fs) \<Longrightarrow> inv (run step s es) \<and> run_ok step ok (run step s es) fs"
  by (induction es arbitrary: s) (auto intro: step_inv)

end

end
