(* ===== verification/Circular.thy ===== *)
theory Circular
  imports Prelude
begin

text \<open>
  Circular numbers (\<^verbatim>\<open>circular/circular.go\<close>): the sequence numbers of SRT.

  The record and its operations follow the source line by line on 32-bit words. The lemmas
  give them their arithmetic meaning: \<open>Inc\<close>, \<open>Add\<close>, \<open>Dec\<close> and \<open>Sub\<close> are addition
  modulo \<open>max + 1\<close>; the comparisons are total and antisymmetric but not transitive, and
  inside a window of fewer than \<open>max div 2\<close> numbers they agree with the distance travelled
  from the start of the window. The interface \<open>window_order\<close> packages that last fact for the
  congestion control, which only compares sequence numbers of one window.
\<close>

section \<open>Definitions\<close>

record Number =
  nmax :: u32
  nthreshold :: u32
  nvalue :: u32

definition Number_Add :: "Number \<Rightarrow> u32 \<Rightarrow> Number" where
  "Number_Add a b =
     (let x = nmax a - nvalue a in
      if b \<le> x then a\<lparr>nvalue := nvalue a + b\<rparr> else a\<lparr>nvalue := b - x - 1\<rparr>)"

definition Number_New :: "u32 \<Rightarrow> u32 \<Rightarrow> Number" where
  "Number_New x mx =
     (let c = \<lparr>nmax = mx, nthreshold = mx div 2, nvalue = 0\<rparr> in
      if x > mx then Number_Add c x else c\<lparr>nvalue := x\<rparr>)"

definition Number_Val :: "Number \<Rightarrow> u32" where
  "Number_Val a = nvalue a"

definition Number_Equals :: "Number \<Rightarrow> Number \<Rightarrow> bool" where
  "Number_Equals a b \<longleftrightarrow> nvalue a = nvalue b"

definition Number_Distance :: "Number \<Rightarrow> Number \<Rightarrow> u32" where
  "Number_Distance a b =
     (if Number_Equals a b then 0
      else let d = (if nvalue a > nvalue b then nvalue a - nvalue b else nvalue b - nvalue a) in
           if d \<ge> nthreshold a then nmax a - d + 1 else d)"

definition Number_Lt :: "Number \<Rightarrow> Number \<Rightarrow> bool" where
  "Number_Lt a b =
     (if Number_Equals a b then False
      else let (d, altb) = (if nvalue a > nvalue b then (nvalue a - nvalue b, False)
                            else (nvalue b - nvalue a, True)) in
           if d < nthreshold a then altb else \<not> altb)"

definition Number_Lte :: "Number \<Rightarrow> Number \<Rightarrow> bool" where
  "Number_Lte a b = (if Number_Equals a b then True else Number_Lt a b)"

definition Number_Gt :: "Number \<Rightarrow> Number \<Rightarrow> bool" where
  "Number_Gt a b =
     (if Number_Equals a b then False
      else let (d, agtb) = (if nvalue a > nvalue b then (nvalue a - nvalue b, True)
                            else (nvalue b - nvalue a, False)) in
           if d < nthreshold a then agtb else \<not> agtb)"

definition Number_Gte :: "Number \<Rightarrow> Number \<Rightarrow> bool" where
  "Number_Gte a b = (if Number_Equals a b then True else Number_Gt a b)"

definition Number_Inc :: "Number \<Rightarrow> Number" where
  "Number_Inc a = (if nvalue a = nmax a then a\<lparr>nvalue := 0\<rparr> else a\<lparr>nvalue := nvalue a + 1\<rparr>)"

definition Number_Dec :: "Number \<Rightarrow> Number" where
  "Number_Dec a = (if nvalue a = 0 then a\<lparr>nvalue := nmax a\<rparr> else a\<lparr>nvalue := nvalue a - 1\<rparr>)"

definition Number_Sub :: "Number \<Rightarrow> u32 \<Rightarrow> Number" where
  "Number_Sub a b =
     (if b \<le> nvalue a then a\<lparr>nvalue := nvalue a - b\<rparr>
      else a\<lparr>nvalue := nmax a - (b - nvalue a) + 1\<rparr>)"

section \<open>Well-formed numbers\<close>

text \<open>Every number built by \<open>Number_New\<close> on a maximum of at least half the type's range.\<close>

definition wf_Number :: "Number \<Rightarrow> bool" where
  "wf_Number a \<longleftrightarrow> nthreshold a = nmax a div 2 \<and> nvalue a \<le> nmax a"

definition same_domain :: "Number \<Rightarrow> Number \<Rightarrow> bool" where
  "same_domain a b \<longleftrightarrow> nmax a = nmax b \<and> nthreshold a = nthreshold b"

definition modulus :: "Number \<Rightarrow> nat" where
  "modulus a = unat (nmax a) + 1"

abbreviation val :: "Number \<Rightarrow> nat" where
  "val a \<equiv> unat (nvalue a)"

lemma val_lt_modulus: "wf_Number a \<Longrightarrow> val a < modulus a"
  by (simp add: wf_Number_def modulus_def word_le_nat_alt)

lemma Number_eqI: "same_domain a b \<Longrightarrow> nvalue a = nvalue b \<Longrightarrow> a = b"
  by (cases a, cases b) (simp add: same_domain_def)

lemma unat_diff_le: "(b :: u32) \<le> a \<Longrightarrow> unat (a - b) = unat a - unat b"
  by (rule unat_sub)

lemma unat_Suc_lt: "(a :: u32) < b \<Longrightarrow> unat (a + 1) = unat a + 1"
  by unat_arith

lemma unat_max_complement:
  assumes "(0 :: u32) < d" "d \<le> m"
  shows "unat (m - d + 1) = unat m + 1 - unat d"
  using assms by unat_arith

section \<open>Arithmetic modulo the maximum plus one\<close>

lemma val_Inc:
  assumes "wf_Number a"
  shows "val (Number_Inc a) = (val a + 1) mod modulus a"
proof (cases "nvalue a = nmax a")
  case True
  then show ?thesis by (simp add: Number_Inc_def modulus_def)
next
  case False
  with assms have lt: "nvalue a < nmax a" by (auto simp: wf_Number_def)
  then have "val a + 1 < modulus a" by (simp add: modulus_def word_less_nat_alt)
  with False lt show ?thesis by (simp add: Number_Inc_def unat_Suc_lt)
qed

lemma val_Dec:
  assumes "wf_Number a"
  shows "val (Number_Dec a) = (val a + unat (nmax a)) mod modulus a"
proof (cases "nvalue a = 0")
  case True
  then show ?thesis by (simp add: Number_Dec_def modulus_def)
next
  case False
  then have pos: "0 < val a" by (simp add: unat_gt_0)
  have "val a - 1 < modulus a" using val_lt_modulus [OF assms] by simp
  moreover have "val a + unat (nmax a) = (val a - 1) + modulus a"
    using pos by (simp add: modulus_def)
  moreover have "unat (nvalue a - 1) = val a - 1"
    using False by (simp add: unat_minus_one)
  ultimately show ?thesis using False by (simp add: Number_Dec_def)
qed

lemma val_Add:
  assumes "wf_Number a" "val a + unat b < 2 * modulus a"
  shows "val (Number_Add a b) = (val a + unat b) mod modulus a"
proof -
  let ?x = "nmax a - nvalue a"
  have x: "unat ?x = unat (nmax a) - val a"
    using assms(1) by (simp add: wf_Number_def unat_diff_le)
  have va: "val a \<le> unat (nmax a)"
    using assms(1) by (simp add: wf_Number_def word_le_nat_alt)
  show ?thesis
  proof (cases "b \<le> ?x")
    case True
    then have le: "val a + unat b \<le> unat (nmax a)"
      using x va by (simp add: word_le_nat_alt)
    moreover have "unat (nmax a) < 2 ^ 32" using unat_lt_u32 [of "nmax a"] by simp
    ultimately have "unat (nvalue a + b) = val a + unat b"
      by (simp add: unat_word_ariths)
    with True le show ?thesis by (simp add: Number_Add_def Let_def modulus_def)
  next
    case False
    then have gt: "unat (nmax a) - val a < unat b" using x by (simp add: word_le_nat_alt)
    have "unat (b - ?x - 1) = unat b - (unat (nmax a) - val a) - 1"
      using False x gt by (simp add: unat_diff_le unat_minus_one word_le_nat_alt)
    also have "\<dots> = val a + unat b - modulus a"
      using va gt by (simp add: modulus_def)
    also have "\<dots> = (val a + unat b) mod modulus a"
      using assms(2) gt va by (simp add: mod_if modulus_def)
    finally show ?thesis using False by (simp add: Number_Add_def Let_def)
  qed
qed

lemma val_Sub:
  assumes "wf_Number a" "unat b \<le> unat (nmax a)"
  shows "val (Number_Sub a b) = (val a + modulus a - unat b) mod modulus a"
proof (cases "b \<le> nvalue a")
  case True
  then have le: "unat b \<le> val a" by (simp add: word_le_nat_alt)
  have "val (Number_Sub a b) = val a - unat b"
    using True by (simp add: Number_Sub_def unat_diff_le)
  also have "\<dots> = (val a - unat b) mod modulus a"
    using val_lt_modulus [OF assms(1)] by (intro mod_less [symmetric]) linarith
  also have "\<dots> = (val a - unat b + modulus a) mod modulus a" by simp
  also have "val a - unat b + modulus a = val a + modulus a - unat b" using le by linarith
  finally show ?thesis .
next
  case False
  then have lt: "val a < unat b" by (simp add: word_le_nat_alt)
  have d: "unat (b - nvalue a) = unat b - val a"
    using False by (simp add: unat_diff_le)
  have "val (Number_Sub a b) = unat (nmax a - (b - nvalue a) + 1)"
    using False by (simp add: Number_Sub_def)
  also have "\<dots> = unat (nmax a) + 1 - unat (b - nvalue a)"
    using d lt assms(2) by (intro unat_max_complement) (simp_all add: word_less_nat_alt word_le_nat_alt)
  also have "\<dots> = val a + modulus a - unat b"
    using d lt assms(2) by (simp add: modulus_def)
  also have "\<dots> = (val a + modulus a - unat b) mod modulus a"
    using lt assms(2) by (intro mod_less [symmetric]) (simp add: modulus_def)
  finally show ?thesis .
qed

lemma same_domain_refl [simp]: "same_domain a a"
  by (simp add: same_domain_def)

lemma same_domain_sym: "same_domain a b \<Longrightarrow> same_domain b a"
  by (simp add: same_domain_def)

lemma same_domain_trans: "same_domain a b \<Longrightarrow> same_domain b c \<Longrightarrow> same_domain a c"
  by (simp add: same_domain_def)

lemma same_domain_ops [simp]:
  "same_domain (Number_Inc a) b = same_domain a b" "same_domain b (Number_Inc a) = same_domain b a"
  "same_domain (Number_Dec a) b = same_domain a b" "same_domain b (Number_Dec a) = same_domain b a"
  "same_domain (Number_Add a n) b = same_domain a b" "same_domain b (Number_Add a n) = same_domain b a"
  "same_domain (Number_Sub a n) b = same_domain a b" "same_domain b (Number_Sub a n) = same_domain b a"
  by (simp_all add: same_domain_def Number_Inc_def Number_Dec_def Number_Add_def Number_Sub_def Let_def)

lemma nmax_New [simp]: "nmax (Number_New x m) = m"
  by (simp add: Number_New_def Number_Add_def Let_def)

lemma Number_New_val_id:
  "wf_Number n \<Longrightarrow> nmax n = m \<Longrightarrow> Number_New (Number_Val n) m = n"
  by (auto simp: wf_Number_def Number_New_def Number_Val_def Let_def)

lemma modulus_cong: "same_domain a b \<Longrightarrow> modulus a = modulus b"
  by (simp add: same_domain_def modulus_def)

lemma wf_Number_domain:
  "wf_Number a \<Longrightarrow> same_domain a b \<Longrightarrow> val b < modulus a \<Longrightarrow> wf_Number b"
  by (auto simp: wf_Number_def same_domain_def modulus_def word_le_nat_alt)

lemma wf_Inc [simp]: "wf_Number a \<Longrightarrow> wf_Number (Number_Inc a)"
  by (rule wf_Number_domain [of a]) (simp_all add: val_Inc modulus_def)

lemma wf_Dec [simp]: "wf_Number a \<Longrightarrow> wf_Number (Number_Dec a)"
  by (rule wf_Number_domain [of a]) (simp_all add: val_Dec modulus_def)

lemma wf_New:
  assumes "unat x < 2 * (unat mx + 1)"
  shows "wf_Number (Number_New x mx)"
proof (cases "x > mx")
  case True
  let ?c = "\<lparr>nmax = mx, nthreshold = mx div 2, nvalue = 0\<rparr>"
  have c: "wf_Number ?c" by (simp add: wf_Number_def)
  then have "wf_Number (Number_Add ?c x)"
    using assms by (intro wf_Number_domain [OF c]) (simp_all add: val_Add [OF c] modulus_def)
  with True show ?thesis by (simp add: Number_New_def)
next
  case False
  then show ?thesis by (simp add: Number_New_def wf_Number_def)
qed

lemma Dec_Inc [simp]:
  assumes "wf_Number a" shows "Number_Dec (Number_Inc a) = a"
proof (rule Number_eqI)
  have "val (Number_Dec (Number_Inc a)) = ((val a + 1) mod modulus a + unat (nmax a)) mod modulus a"
    using assms by (simp add: val_Dec val_Inc modulus_cong [of "Number_Inc a" a])
       (simp add: Number_Inc_def)
  also have "\<dots> = (val a + modulus a) mod modulus a"
    by (simp add: mod_add_left_eq modulus_def)
  also have "\<dots> = val a" using val_lt_modulus [OF assms] by simp
  finally show "nvalue (Number_Dec (Number_Inc a)) = nvalue a" by (simp add: word_unat_eq_iff)
qed simp

section \<open>Comparison\<close>

abbreviation thr :: "Number \<Rightarrow> nat" where
  "thr a \<equiv> unat (nthreshold a)"

lemma thr_modulus: "wf_Number a \<Longrightarrow> thr a = (modulus a - 1) div 2"
  by (simp add: wf_Number_def modulus_def unat_div_distrib)

lemma Number_Lt_iff:
  "Number_Lt a b \<longleftrightarrow>
     (val a < val b \<and> val b - val a < thr a) \<or> (val b < val a \<and> thr a \<le> val a - val b)"
  by (auto simp: Number_Lt_def Number_Equals_def Let_def word_less_nat_alt word_le_nat_alt
      unat_diff_le not_less word_unat_eq_iff)

lemma Number_Gt_iff:
  "Number_Gt a b \<longleftrightarrow>
     (val b < val a \<and> val a - val b < thr a) \<or> (val a < val b \<and> thr a \<le> val b - val a)"
  by (auto simp: Number_Gt_def Number_Equals_def Let_def word_less_nat_alt word_le_nat_alt
      unat_diff_le not_less word_unat_eq_iff)

lemma Number_Gt_Lt: "same_domain a b \<Longrightarrow> Number_Gt a b = Number_Lt b a"
  by (auto simp: Number_Gt_iff Number_Lt_iff same_domain_def)

lemma Number_Lte_iff: "Number_Lte a b \<longleftrightarrow> nvalue a = nvalue b \<or> Number_Lt a b"
  by (simp add: Number_Lte_def Number_Equals_def)

lemma Number_Gte_iff: "Number_Gte a b \<longleftrightarrow> nvalue a = nvalue b \<or> Number_Gt a b"
  by (simp add: Number_Gte_def Number_Equals_def)

lemma Number_Lt_irrefl [simp]: "\<not> Number_Lt a a"
  by (simp add: Number_Lt_iff)

lemma Number_not_Lt: "same_domain a b \<Longrightarrow> \<not> Number_Lt a b \<longleftrightarrow> Number_Lte b a"
  by (auto simp: Number_Lte_iff Number_Lt_iff same_domain_def word_unat_eq_iff)

subsection \<open>Positions on a circle of \<open>m\<close> numbers\<close>

definition offn :: "nat \<Rightarrow> nat \<Rightarrow> nat \<Rightarrow> nat" where
  "offn m a b = (if a \<le> b then b - a else b + m - a)"

lemma offn_window:
  assumes "a < m" "b < m" "c < m" "t = (m - 1) div 2" "offn m c a < t" "offn m c b < t"
  shows "(a < b \<and> b - a < t \<or> b < a \<and> t \<le> a - b) \<longleftrightarrow> offn m c a < offn m c b"
proof -
  have t: "2 * t < m" using assms(1,4) by linarith
  show ?thesis
    using assms(1-3,5,6) t unfolding offn_def by (cases "c \<le> a"; cases "c \<le> b") (simp; linarith)+
qed
lemma offn_behind:
  assumes "b < m" "c < m" "t = (m - 1) div 2" "offn m c b = 0 \<or> m < offn m c b + t"
  shows "b = c \<or> (b < c \<and> c - b < t \<or> c < b \<and> t \<le> b - c)"
proof -
  have t: "2 * t < m" using assms(1,3) by linarith
  show ?thesis
    using assms(1,2,4) t unfolding offn_def by (cases "c \<le> b") (simp; linarith)+
qed
lemma offn_shift:
  assumes "a < m" "c < m" "d < m" "t = (m - 1) div 2" "offn m c a < t" "offn m c d < t"
    "offn m c d \<le> offn m c a"
  shows "offn m d a = offn m c a - offn m c d"
proof -
  have t: "2 * t < m" using assms(1,4) by linarith
  show ?thesis
    using assms(1-3,5-7) t unfolding offn_def
    by (cases "c \<le> a"; cases "c \<le> d"; cases "d \<le> a") (simp; linarith)+
qed
lemma offn_Suc:
  assumes "c < m" "a < m" "offn m c a + 1 < m"
  shows "offn m c ((a + 1) mod m) = offn m c a + 1"
proof (cases "a + 1 = m")
  case True then show ?thesis using assms unfolding offn_def by (cases "c \<le> a") (simp; linarith)+
next
  case False
  then have "(a + 1) mod m = a + 1" using assms(2) by simp
  then show ?thesis using assms False unfolding offn_def by (cases "c \<le> a"; cases "c \<le> a + 1") (simp; linarith)+
qed
lemma offn_pred:
  assumes "c < m" "a < m" "0 < offn m c a"
  shows "offn m c (if a = 0 then m - 1 else a - 1) = offn m c a - 1"
  using assms unfolding offn_def by (cases "a = 0"; cases "c \<le> a"; cases "c \<le> a - 1") (simp; linarith)+
lemma offn_inj:
  assumes "c < m" "a < m" "b < m" "offn m c a = offn m c b" shows "a = b"
  using assms unfolding offn_def by (cases "c \<le> a"; cases "c \<le> b") (simp; linarith)+
text \<open>The distance travelled from \<open>a\<close> forward to \<open>b\<close>.\<close>

definition off :: "Number \<Rightarrow> Number \<Rightarrow> nat" where
  "off a b = offn (modulus a) (val a) (val b)"

lemma off_self [simp]: "off a a = 0"
  by (simp add: off_def offn_def)

text \<open>\<open>b\<close> lies in the window that starts at \<open>c\<close>: fewer than \<open>max div 2\<close> steps ahead.\<close>

definition in_window :: "Number \<Rightarrow> Number \<Rightarrow> bool" where
  "in_window c b \<longleftrightarrow> wf_Number c \<and> wf_Number b \<and> same_domain c b \<and> off c b < thr c"

text \<open>\<open>b\<close> lies behind \<open>c\<close>: at most \<open>max div 2 - 1\<close> steps back (\<open>c\<close> itself included).\<close>

definition behind :: "Number \<Rightarrow> Number \<Rightarrow> bool" where
  "behind c b \<longleftrightarrow> wf_Number c \<and> wf_Number b \<and> same_domain c b
     \<and> (off c b = 0 \<or> modulus c < off c b + thr c)"

lemma val_lt_domain: "wf_Number a \<Longrightarrow> same_domain c a \<Longrightarrow> val a < modulus c"
  using val_lt_modulus modulus_cong by metis

lemma off_lt_modulus:
  "wf_Number a \<Longrightarrow> wf_Number b \<Longrightarrow> same_domain a b \<Longrightarrow> off a b < modulus a"
  using val_lt_domain [of a a] val_lt_domain [of b a] by (auto simp: off_def offn_def)

lemma off_inj:
  assumes "wf_Number a" "wf_Number b" "same_domain c a" "same_domain c b" "wf_Number c"
    and "off c a = off c b"
  shows "a = b"
proof (rule Number_eqI)
  show "same_domain a b" using assms(3,4) by (blast intro: same_domain_trans same_domain_sym)
  have "val a = val b"
    using offn_inj [OF val_lt_modulus [OF assms(5)] val_lt_domain [OF assms(1,3)]
        val_lt_domain [OF assms(2,4)]] assms(6) by (simp add: off_def)
  then show "nvalue a = nvalue b" by (simp add: word_unat_eq_iff)
qed

lemma in_windowD:
  assumes "in_window c a"
  shows "wf_Number a" "wf_Number c" "same_domain c a" "off c a < thr c"
    and "val a < modulus c" "val c < modulus c" "thr a = thr c" "modulus a = modulus c"
    and "thr c = (modulus c - 1) div 2"
  using assms by (auto simp: in_window_def val_lt_domain val_lt_modulus thr_modulus)
    (auto simp: same_domain_def modulus_def)

lemma Lt_window:
  assumes "in_window c a" "in_window c b"
  shows "Number_Lt a b \<longleftrightarrow> off c a < off c b"
  unfolding Number_Lt_iff off_def in_windowD(7) [OF assms(1)]
  using in_windowD [OF assms(1)] in_windowD [OF assms(2)]
  by (intro offn_window) (simp_all add: off_def)

lemma behind_Lte:
  assumes "behind c b"
  shows "Number_Lte b c"
proof -
  from assms have wf: "wf_Number b" "wf_Number c" "same_domain c b" "thr b = thr c"
    and o: "off c b = 0 \<or> modulus c < off c b + thr c"
    by (auto simp: behind_def same_domain_def)
  have "val b = val c \<or> (val b < val c \<and> val c - val b < thr c \<or> val c < val b \<and> thr c \<le> val b - val c)"
    using o wf by (intro offn_behind) (simp_all add: val_lt_domain val_lt_modulus thr_modulus off_def)
  then show ?thesis by (simp add: Number_Lte_iff Number_Lt_iff word_unat_eq_iff wf)
qed

lemma off_shift:
  assumes "in_window c d" "in_window c a" "off c d \<le> off c a"
  shows "off d a = off c a - off c d"
  unfolding off_def in_windowD(8) [OF assms(1)]
  using in_windowD(4-9) [OF assms(1)] in_windowD(4-9) [OF assms(2)] assms(3)
  by (intro offn_shift [where t = "thr c"]) (simp_all only: off_def)

lemma in_window_shift:
  assumes "in_window c d" "in_window c a" "off c d \<le> off c a"
  shows "in_window d a"
proof -
  have "off d a < thr d"
    using off_shift [OF assms] in_windowD(4) [OF assms(2)] in_windowD(7) [OF assms(1)] by linarith
  then show ?thesis
    using in_windowD(1-3) [OF assms(1)] in_windowD(1-3) [OF assms(2)]
    by (auto simp: in_window_def intro: same_domain_trans same_domain_sym)
qed

lemma off_Inc:
  assumes "wf_Number c" "wf_Number a" "same_domain c a" "off c a + 1 < modulus c"
  shows "off c (Number_Inc a) = off c a + 1"
proof -
  have "val (Number_Inc a) = (val a + 1) mod modulus c"
    using assms(2) by (simp add: val_Inc modulus_cong [OF assms(3)])
  then show ?thesis
    using offn_Suc [of "val c" "modulus c" "val a"] assms
    by (simp add: off_def val_lt_modulus val_lt_domain)
qed

lemma off_Dec:
  assumes "wf_Number c" "wf_Number a" "same_domain c a" "0 < off c a"
  shows "off c (Number_Dec a) = off c a - 1"
proof -
  have "val (Number_Dec a) = (if val a = 0 then modulus c - 1 else val a - 1)"
    using modulus_cong [OF assms(3)]
    by (auto simp: Number_Dec_def modulus_def unat_minus_one word_unat_eq_iff)
  then show ?thesis
    using offn_pred [of "val c" "modulus c" "val a"] assms
    by (simp add: off_def val_lt_modulus val_lt_domain)
qed

text \<open>
  \<open>Distance\<close> is the shorter way round, except that exactly \<open>threshold\<close> steps count as the
  longer way.
\<close>

definition gap :: "Number \<Rightarrow> Number \<Rightarrow> nat" where
  "gap a b = (if val b < val a then val a - val b else val b - val a)"

lemma Number_Distance_val:
  assumes "wf_Number a" "wf_Number b" "same_domain a b"
  shows "unat (Number_Distance a b) =
    (if gap a b = 0 \<or> gap a b < thr a then gap a b else modulus a - gap a b)"
proof (cases "nvalue a = nvalue b")
  case True
  then show ?thesis by (simp add: Number_Distance_def Number_Equals_def gap_def)
next
  case False
  define w where "w = (if nvalue a > nvalue b then nvalue a - nvalue b else nvalue b - nvalue a)"
  have d: "unat w = gap a b"
    by (auto simp: w_def gap_def word_less_nat_alt unat_diff_le word_le_nat_alt not_less)
  have ne: "gap a b \<noteq> 0" using False by (auto simp: gap_def word_unat_eq_iff)
  have le: "w \<le> nmax a"
    using assms d val_lt_modulus [OF assms(1)] val_lt_domain [OF assms(2,3)]
    by (auto simp: word_le_nat_alt gap_def modulus_def)
  have pos: "0 < w" using ne d by (simp add: word_less_nat_alt)
  have m: "unat (nmax a - w + 1) = modulus a - gap a b"
    unfolding modulus_def d [symmetric] by (rule unat_max_complement [OF pos le])
  have "Number_Distance a b = (if nthreshold a \<le> w then nmax a - w + 1 else w)"
    using False by (simp only: Number_Distance_def Number_Equals_def w_def Let_def if_False)
  then show ?thesis using ne d m by (simp add: word_le_nat_alt not_le)
qed

section \<open>The order of one window\<close>

text \<open>
  What the congestion control relies on: positions inside the window of a base number decide
  every comparison, advancing by one step moves the position by one, and the base may be moved
  to any number of the window.
\<close>

locale window_order =
  fixes inw :: "'n \<Rightarrow> 'n \<Rightarrow> bool"
    and pos :: "'n \<Rightarrow> 'n \<Rightarrow> nat"
    and lt :: "'n \<Rightarrow> 'n \<Rightarrow> bool"
    and lte :: "'n \<Rightarrow> 'n \<Rightarrow> bool"
    and gt :: "'n \<Rightarrow> 'n \<Rightarrow> bool"
  assumes lt_pos: "inw c a \<Longrightarrow> inw c b \<Longrightarrow> lt a b \<longleftrightarrow> pos c a < pos c b"
    and lte_pos: "inw c a \<Longrightarrow> inw c b \<Longrightarrow> lte a b \<longleftrightarrow> pos c a \<le> pos c b"
    and gt_pos: "inw c a \<Longrightarrow> inw c b \<Longrightarrow> gt a b \<longleftrightarrow> pos c b < pos c a"
    and pos_inj: "inw c a \<Longrightarrow> inw c b \<Longrightarrow> pos c a = pos c b \<Longrightarrow> a = b"
    and rebase: "inw c d \<Longrightarrow> inw c a \<Longrightarrow> pos c d \<le> pos c a \<Longrightarrow> inw d a \<and> pos d a = pos c a - pos c d"
begin

lemma lt_trans: "inw c x \<Longrightarrow> inw c y \<Longrightarrow> inw c z \<Longrightarrow> lt x y \<Longrightarrow> lt y z \<Longrightarrow> lt x z"
  by (simp add: lt_pos)

lemma not_lt: "inw c x \<Longrightarrow> inw c y \<Longrightarrow> \<not> lt x y \<longleftrightarrow> lte y x"
  by (auto simp: lt_pos lte_pos)

lemma lt_gt: "inw c x \<Longrightarrow> inw c y \<Longrightarrow> gt x y \<longleftrightarrow> lt y x"
  by (simp add: lt_pos gt_pos)

lemma sorted_lt_pos:
  assumes "\<forall>x \<in> set xs. inw c x"
  shows "sorted_wrt lt xs \<longleftrightarrow> sorted_wrt (<) (map (pos c) xs)"
  using assms by (induction xs) (auto simp: lt_pos)

lemma sorted_lt_distinct:
  assumes "\<forall>x \<in> set xs. inw c x" "sorted_wrt lt xs"
  shows "distinct xs"
  using assms by (induction xs) (fastforce simp: lt_pos)+

end

lemma Lte_window:
  "in_window c a \<Longrightarrow> in_window c b \<Longrightarrow> Number_Lte a b \<longleftrightarrow> off c a \<le> off c b"
  using off_inj [of a b c]
  by (auto simp: Number_Lte_iff Lt_window le_less in_windowD off_def)

interpretation seq: window_order in_window off Number_Lt Number_Lte Number_Gt
proof (unfold_locales, goal_cases)
  case 1 then show ?case by (rule Lt_window)
next
  case 2 then show ?case by (rule Lte_window)
next
  case (3 c a b)
  then have "same_domain a b"
    by (auto simp: in_window_def intro: same_domain_trans same_domain_sym)
  with 3 show ?case by (simp add: Number_Gt_Lt Lt_window)
next
  case (4 c a b) then show ?case by (auto simp: in_window_def intro: off_inj [of a b c])
next
  case (5 c d a) then show ?case using in_window_shift [of c d a] off_shift [of c d a] by simp
qed

section \<open>Properties\<close>

lemma add_sub_mod:
  assumes "(v::nat) < m" "b < m" shows "((v + b) mod m + m - b) mod m = v"
proof (cases "v + b < m")
  case True
  then have "(v + b) mod m + m - b = v + m" using assms by simp
  then show ?thesis using assms(1) by simp
next
  case False
  then have "(v + b) mod m = v + b - m" using assms by (simp add: mod_if)
  then have "(v + b) mod m + m - b = v" using False by simp
  then show ?thesis using assms(1) by simp
qed

lemma Add_domain [simp]: "modulus (Number_Add a b) = modulus a" "nmax (Number_Add a b) = nmax a"
  by (simp_all add: Number_Add_def modulus_def Let_def)

lemma Inc_Add:
  assumes "wf_Number a" shows "Number_Inc a = Number_Add a 1"
  using assms by (auto simp: Number_Inc_def Number_Add_def Let_def wf_Number_def word_le_nat_alt
      unat_diff_le word_unat_eq_iff)

text \<open>
  Comparison of two numbers of one domain is total and antisymmetric: exactly one of
  \<open>a < b\<close>, \<open>a = b\<close>, \<open>b < a\<close> holds, \<open>Gt\<close> is the converse of \<open>Lt\<close>, and \<open>Lte\<close>, \<open>Gte\<close> are
  their complements.
\<close>

lemma Number_compare_total:
  assumes "same_domain a b"
  shows "Number_Gt a b = Number_Lt b a
    \<and> Number_Lt a b = (\<not> Number_Equals a b \<and> \<not> Number_Lt b a)
    \<and> Number_Lte a b = (\<not> Number_Gt a b) \<and> Number_Gte a b = (\<not> Number_Lt a b)
    \<and> \<not> (Number_Equals a b \<and> Number_Lt a b)"
  using assms
  by (auto simp: Number_Lte_iff Number_Gte_iff Number_Gt_iff Number_Lt_iff Number_Equals_def
      same_domain_def word_unat_eq_iff)

text \<open>
  C28. Inside a window of fewer than \<open>max div 2\<close> numbers starting at \<open>c\<close>, the comparisons
  agree with the number of steps from \<open>c\<close>, also where the values wrap to 0.
\<close>

theorem Number_window_order:
  assumes "in_window c a" "in_window c b"
  shows "Number_Lt a b = (off c a < off c b) \<and> Number_Lte a b = (off c a \<le> off c b)
    \<and> Number_Gt a b = (off c b < off c a) \<and> (a = b) = (off c a = off c b)"
  using seq.lt_pos [OF assms] seq.lte_pos [OF assms] seq.gt_pos [OF assms] seq.pos_inj [OF assms]
  by blast

theorem Number_window_order_witness:
  "Number_Lt (Number_New 2147483647 2147483647) (Number_New 1 2147483647)"
proof -
  let ?c = "Number_New 2147483646 2147483647"
  have "in_window ?c (Number_New 2147483647 2147483647)" "in_window ?c (Number_New 1 2147483647)"
    by (simp_all add: in_window_def wf_Number_def same_domain_def off_def offn_def modulus_def
        Number_New_def)
  from Number_window_order [OF this] show ?thesis
    by (simp add: off_def offn_def modulus_def Number_New_def)
qed



text \<open>
  C30. For an odd maximum, \<open>Distance\<close> is symmetric and is the shorter way round the circle,
  with one exception: numbers exactly \<open>threshold\<close> apart are reported two further apart.
\<close>

theorem Number_Distance_shorter_way:
  assumes "wf_Number a" "wf_Number b" "same_domain a b" "odd (unat (nmax a))"
  shows "Number_Distance a b = Number_Distance b a
    \<and> unat (Number_Distance a b) =
        (if gap a b = thr a \<and> gap a b \<noteq> 0 then gap a b + 2 else min (gap a b) (modulus a - gap a b))"
proof -
  have dom: "same_domain b a" "thr b = thr a" "modulus b = modulus a"
    using assms(3) by (auto simp: same_domain_def modulus_def)
  have g: "gap b a = gap a b" by (simp add: gap_def)
  have lt: "gap a b < modulus a"
    using val_lt_modulus [OF assms(1)] val_lt_domain [OF assms(2,3)] by (auto simp: gap_def)
  obtain k where k: "unat (nmax a) = 2 * k + 1" using assms(4) by (rule oddE)
  then have t: "thr a = k" "modulus a = 2 * k + 2"
    using thr_modulus [OF assms(1)] by (simp_all add: modulus_def)
  have ab: "unat (Number_Distance a b) =
      (if gap a b = 0 \<or> gap a b < thr a then gap a b else modulus a - gap a b)"
    by (rule Number_Distance_val [OF assms(1-3)])
  moreover have "unat (Number_Distance b a) = unat (Number_Distance a b)"
    using ab Number_Distance_val [OF assms(2,1) dom(1)] g dom by simp
  ultimately show ?thesis
    using lt t by (auto simp: word_unat_eq_iff)
qed

theorem Number_Distance_shorter_way_witness:
  "unat (Number_Distance (Number_New 2 2147483647) (Number_New 2147483647 2147483647)) = 3"
  using Number_Distance_shorter_way [of "Number_New 2 2147483647" "Number_New 2147483647 2147483647"]
  by (auto simp: wf_Number_def Number_New_def modulus_def gap_def same_domain_def)

end
