(* ===== verification/Packet.thy ===== *)
theory Packet
  imports Circular
begin

text \<open>
  SRT packets (\<^verbatim>\<open>packet/packet.go\<close>): the header, the packet value and its wire format.

  A packet is its header and a payload buffer. The buffer pointer is an option: \<open>None\<close> is the
  nil pointer that \<open>Decommission\<close> leaves behind. The pool of buffers is not modelled; a buffer
  taken from it is empty, as \<open>pool.Get\<close> guarantees. A writer argument is the byte sequence
  written so far, \<open>None\<close> for a nil writer.

  The lemmas show that \<open>Marshal\<close> and \<open>Unmarshal\<close> are inverse to each other in both
  directions, on every header field that travels and on every byte string.
\<close>

section \<open>Constants and flags\<close>

definition MAX_SEQUENCENUMBER :: u32 where
  [simp]: "MAX_SEQUENCENUMBER = 0x7FFFFFFF"

definition MAX_TIMESTAMP :: u32 where
  [simp]: "MAX_TIMESTAMP = 0xFFFFFFFF"

definition MAX_PAYLOAD_SIZE :: nat where
  [simp]: "MAX_PAYLOAD_SIZE = 1456"

text \<open>\<open>CtrlType\<close> and \<open>CtrlSubType\<close> are 16-bit codes.\<close>

type_synonym CtrlType = u16
type_synonym CtrlSubType = u16

definition CTRLTYPE_HANDSHAKE :: CtrlType where [simp]: "CTRLTYPE_HANDSHAKE = 0"
definition CTRLTYPE_KEEPALIVE :: CtrlType where [simp]: "CTRLTYPE_KEEPALIVE = 1"
definition CTRLTYPE_ACK :: CtrlType where [simp]: "CTRLTYPE_ACK = 2"
definition CTRLTYPE_NAK :: CtrlType where [simp]: "CTRLTYPE_NAK = 3"
definition CTRLTYPE_WARN :: CtrlType where [simp]: "CTRLTYPE_WARN = 4"
definition CTRLTYPE_SHUTDOWN :: CtrlType where [simp]: "CTRLTYPE_SHUTDOWN = 5"
definition CTRLTYPE_ACKACK :: CtrlType where [simp]: "CTRLTYPE_ACKACK = 6"
definition CRTLTYPE_DROPREQ :: CtrlType where [simp]: "CRTLTYPE_DROPREQ = 7"
definition CRTLTYPE_PEERERROR :: CtrlType where [simp]: "CRTLTYPE_PEERERROR = 8"
definition CTRLTYPE_USER :: CtrlType where [simp]: "CTRLTYPE_USER = 0x7FFF"

definition CtrlType_String :: "CtrlType \<Rightarrow> string" where
  "CtrlType_String h =
     (if h = CTRLTYPE_HANDSHAKE then ''HANDSHAKE''
      else if h = CTRLTYPE_KEEPALIVE then ''KEEPALIVE''
      else if h = CTRLTYPE_ACK then ''ACK''
      else if h = CTRLTYPE_NAK then ''NAK''
      else if h = CTRLTYPE_WARN then ''WARN''
      else if h = CTRLTYPE_SHUTDOWN then ''SHUTDOWN''
      else if h = CTRLTYPE_ACKACK then ''ACKACK''
      else if h = CRTLTYPE_DROPREQ then ''DROPREQ''
      else if h = CRTLTYPE_PEERERROR then ''PEERERROR''
      else if h = CTRLTYPE_USER then ''USER''
      else ''unknown'')"

definition CTRLSUBTYPE_NONE :: CtrlSubType where [simp]: "CTRLSUBTYPE_NONE = 0"
definition EXTTYPE_HSREQ :: CtrlSubType where [simp]: "EXTTYPE_HSREQ = 1"
definition EXTTYPE_HSRSP :: CtrlSubType where [simp]: "EXTTYPE_HSRSP = 2"
definition EXTTYPE_KMREQ :: CtrlSubType where [simp]: "EXTTYPE_KMREQ = 3"
definition EXTTYPE_KMRSP :: CtrlSubType where [simp]: "EXTTYPE_KMRSP = 4"
definition EXTTYPE_SID :: CtrlSubType where [simp]: "EXTTYPE_SID = 5"
definition EXTTYPE_CONGESTION :: CtrlSubType where [simp]: "EXTTYPE_CONGESTION = 6"
definition EXTTYPE_FILTER :: CtrlSubType where [simp]: "EXTTYPE_FILTER = 7"
definition EXTTYPE_GROUP :: CtrlSubType where [simp]: "EXTTYPE_GROUP = 8"

definition CtrlSubType_String :: "CtrlSubType \<Rightarrow> string" where
  "CtrlSubType_String h =
     (if h = CTRLSUBTYPE_NONE then ''NONE''
      else if h = EXTTYPE_HSREQ then ''EXTTYPE_HSREQ''
      else if h = EXTTYPE_HSRSP then ''EXTTYPE_HSRSP''
      else if h = EXTTYPE_KMREQ then ''EXTTYPE_KMREQ''
      else if h = EXTTYPE_KMRSP then ''EXTTYPE_KMRSP''
      else if h = EXTTYPE_SID then ''EXTTYPE_SID''
      else if h = EXTTYPE_CONGESTION then ''EXTTYPE_CONGESTION''
      else if h = EXTTYPE_FILTER then ''EXTTYPE_FILTER''
      else if h = EXTTYPE_GROUP then ''EXTTYPE_GROUP''
      else ''unknown'')"

type_synonym HandshakeType = u32

definition HSTYPE_DONE :: HandshakeType where [simp]: "HSTYPE_DONE = 0xFFFFFFFD"
definition HSTYPE_AGREEMENT :: HandshakeType where [simp]: "HSTYPE_AGREEMENT = 0xFFFFFFFE"
definition HSTYPE_CONCLUSION :: HandshakeType where [simp]: "HSTYPE_CONCLUSION = 0xFFFFFFFF"
definition HSTYPE_WAVEHAND :: HandshakeType where [simp]: "HSTYPE_WAVEHAND = 0"
definition HSTYPE_INDUCTION :: HandshakeType where [simp]: "HSTYPE_INDUCTION = 1"

definition HandshakeType_IsHandshake :: "HandshakeType \<Rightarrow> bool" where
  "HandshakeType_IsHandshake h \<longleftrightarrow>
     h = HSTYPE_DONE \<or> h = HSTYPE_AGREEMENT \<or> h = HSTYPE_CONCLUSION \<or> h = HSTYPE_WAVEHAND
     \<or> h = HSTYPE_INDUCTION"

definition HandshakeType_IsRejection :: "HandshakeType \<Rightarrow> bool" where
  "HandshakeType_IsRejection h \<longleftrightarrow> \<not> HandshakeType_IsHandshake h"

text \<open>\<open>PacketPosition\<close> and \<open>PacketEncryption\<close> have the underlying type \<open>uint\<close>.\<close>

type_synonym PacketPosition = u64
type_synonym PacketEncryption = u64

definition FirstPacket :: PacketPosition where [simp]: "FirstPacket = 2"
definition MiddlePacket :: PacketPosition where [simp]: "MiddlePacket = 0"
definition LastPacket :: PacketPosition where [simp]: "LastPacket = 1"
definition SinglePacket :: PacketPosition where [simp]: "SinglePacket = 3"

definition PacketPosition_IsValid :: "PacketPosition \<Rightarrow> bool" where
  "PacketPosition_IsValid p \<longleftrightarrow> p < 4"

definition PacketPosition_Val :: "PacketPosition \<Rightarrow> u32" where
  "PacketPosition_Val p = ucast p"

definition UnencryptedPacket :: PacketEncryption where [simp]: "UnencryptedPacket = 0"
definition EvenKeyEncrypted :: PacketEncryption where [simp]: "EvenKeyEncrypted = 1"
definition OddKeyEncrypted :: PacketEncryption where [simp]: "OddKeyEncrypted = 2"
definition EvenAndOddKey :: PacketEncryption where [simp]: "EvenAndOddKey = 3"

definition PacketEncryption_IsValid :: "PacketEncryption \<Rightarrow> bool" where
  "PacketEncryption_IsValid p \<longleftrightarrow> p < 4"

definition PacketEncryption_Opposite :: "PacketEncryption \<Rightarrow> PacketEncryption" where
  "PacketEncryption_Opposite p =
     (if p = EvenKeyEncrypted then OddKeyEncrypted
      else if p = OddKeyEncrypted then EvenKeyEncrypted else p)"

definition PacketEncryption_Val :: "PacketEncryption \<Rightarrow> u32" where
  "PacketEncryption_Val p = ucast p"

section \<open>Packets\<close>

text \<open>A \<open>net.Addr\<close>: its network and its printed form. The nil address is \<open>None\<close>.\<close>

record go_addr =
  Network :: string
  AddrString :: string

record PacketHeader =
  Addr :: "go_addr option"
  LocalAddr :: "go_addr option"
  IsControlPacket :: bool
  PktTsbpdTime :: u64
  ControlType :: CtrlType
  SubType :: CtrlSubType
  TypeSpecific :: u32
  PacketSequenceNumber :: Number
  PacketPositionFlag :: PacketPosition
  OrderFlag :: bool
  KeyBaseEncryptionFlag :: PacketEncryption
  RetransmittedPacketFlag :: bool
  MessageNumber :: u32
  Timestamp :: u32
  DestinationSocketId :: u32

record pkt =
  header :: PacketHeader
  payload :: "bytes option"

text \<open>The errors of package \<^verbatim>\<open>packet\<close>.\<close>

datatype packet_error =
    DataTooShort
  | DataWrongLength
  | InvalidWriter
  | InvalidPayload
  | NotControlPacket
  | InvalidEncryptionField u16
  | InvalidExtensionLength nat CtrlSubType
  | InvalidKeyLengthFor u16 u16
  | InvalidKMError u32
  | InvalidS
  | InvalidVersion
  | InvalidPacketType u8
  | InvalidSignature u16
  | InvalidKK
  | InvalidKEKI u32
  | InvalidSE u8
  | InvalidKeyLength
  | InvalidSaltLength
  | InvalidLossList
  | InvalidShutdownLength

definition NewPacket :: "go_addr option \<Rightarrow> pkt" where
  "NewPacket addr =
     \<lparr>header =
        \<lparr>Addr = addr, LocalAddr = None, IsControlPacket = False, PktTsbpdTime = 0,
         ControlType = 0, SubType = 0, TypeSpecific = 0,
         PacketSequenceNumber = Number_New 0 MAX_SEQUENCENUMBER,
         PacketPositionFlag = SinglePacket, OrderFlag = False,
         KeyBaseEncryptionFlag = UnencryptedPacket, RetransmittedPacketFlag = False,
         MessageNumber = 1, Timestamp = 0, DestinationSocketId = 0\<rparr>,
      payload = Some []\<rparr>"

definition pkt_Decommission :: "pkt \<Rightarrow> pkt" where
  "pkt_Decommission p = (if payload p = None then p else p\<lparr>payload := None\<rparr>)"

definition pkt_Clone :: "pkt \<Rightarrow> pkt option" where
  "pkt_Clone p = (case payload p of None \<Rightarrow> None | Some d \<Rightarrow> Some (p\<lparr>payload := Some ([] @ d)\<rparr>))"

definition pkt_SetData :: "pkt \<Rightarrow> bytes \<Rightarrow> pkt option" where
  "pkt_SetData p d = (case payload p of None \<Rightarrow> None | Some _ \<Rightarrow> Some (p\<lparr>payload := Some d\<rparr>))"

text \<open>
  \<open>Data\<close> and \<open>Len\<close> dereference the buffer. They are read on commissioned packets only; the
  components that call them prove it of the packets they hold.
\<close>

definition pkt_Data :: "pkt \<Rightarrow> bytes" where
  "pkt_Data p = (case payload p of None \<Rightarrow> [] | Some d \<Rightarrow> d)"

definition pkt_Len :: "pkt \<Rightarrow> u64" where
  "pkt_Len p = of_nat (length (pkt_Data p))"

definition commissioned :: "pkt \<Rightarrow> bool" where
  "commissioned p \<longleftrightarrow> payload p \<noteq> None"

section \<open>The wire format\<close>

definition pkt_Unmarshal :: "pkt \<Rightarrow> bytes \<Rightarrow> (packet_error, pkt) result" where
  "pkt_Unmarshal p data =
     (if length data < 16 then Inl (Err DataTooShort)
      else
        let isctl = (data ! 0) AND 0x80 \<noteq> 0;
            h = (header p)\<lparr>IsControlPacket := isctl\<rparr>;
            h = (if isctl then
                   h\<lparr>ControlType := be16 data 0 AND NOT (push_bit 15 1),
                     SubType := be16 data 2,
                     TypeSpecific := be32 data 4\<rparr>
                 else
                   h\<lparr>PacketSequenceNumber := Number_New (be32 data 0) MAX_SEQUENCENUMBER,
                     PacketPositionFlag := ucast (drop_bit 6 ((data ! 4) AND 0xC0)),
                     OrderFlag := (data ! 4) AND 0x20 \<noteq> 0,
                     KeyBaseEncryptionFlag := ucast (drop_bit 3 ((data ! 4) AND 0x18)),
                     RetransmittedPacketFlag := (data ! 4) AND 0x04 \<noteq> 0,
                     MessageNumber := be32 data 4 AND NOT 0xFC000000\<rparr>);
            h = h\<lparr>Timestamp := be32 data 8, DestinationSocketId := be32 data 12\<rparr>
        in case payload p of
             None \<Rightarrow> Inl Panic
           | Some _ \<Rightarrow> Inr \<lparr>header = h, payload = Some (drop 16 data)\<rparr>)"

definition data_field :: "PacketHeader \<Rightarrow> u32" where
  "data_field h =
     (let field = push_bit 6 (PacketPosition_Val (PacketPositionFlag h) AND 3);
          field = (if OrderFlag h then field OR push_bit 5 1 else field);
          field = field OR push_bit 3 (PacketEncryption_Val (KeyBaseEncryptionFlag h) AND 3);
          field = (if RetransmittedPacketFlag h then field OR push_bit 2 1 else field);
          field = push_bit 24 field
      in field + (MessageNumber h AND 0x03FFFFFF))"

definition header_bytes :: "PacketHeader \<Rightarrow> bytes" where
  "header_bytes h =
     (let buffer =
        (if IsControlPacket h then
           (let b = put16 (ControlType h) @ put16 (SubType h) @ put32 (TypeSpecific h)
            in b[0 := (b ! 0) OR 0x80])
         else put32 (Number_Val (PacketSequenceNumber h)) @ put32 (data_field h))
      in buffer @ put32 (Timestamp h) @ put32 (DestinationSocketId h))"

definition pkt_Marshal :: "pkt \<Rightarrow> bytes option \<Rightarrow> (packet_error, bytes) result" where
  "pkt_Marshal p w =
     (case w of
        None \<Rightarrow> Inl (Err InvalidWriter)
      | Some out \<Rightarrow>
          (case payload p of
             None \<Rightarrow> Inl (Err InvalidPayload)
           | Some d \<Rightarrow> Inr (out @ header_bytes (header p) @ d)))"

definition NewPacketFromData :: "go_addr option \<Rightarrow> bytes \<Rightarrow> (packet_error, pkt) result" where
  "NewPacketFromData addr rawdata =
     (let p = NewPacket addr in
      if length rawdata \<noteq> 0 then
        (case pkt_Unmarshal p rawdata of Inl e \<Rightarrow> Inl e | Inr p \<Rightarrow> Inr p)
      else Inr p)"

text \<open>
  \<open>MarshalCIF\<close> and \<open>UnmarshalCIF\<close> take the control information field as an interface value; the
  argument is its \<open>Marshal\<close>, respectively its \<open>Unmarshal\<close>. A \<open>Marshal\<close> that fails has written
  nothing, so the payload is the emptied buffer then. What \<open>Unmarshal\<close> has assigned before it fails
  is dropped: no caller reads the value after an error.
\<close>

definition pkt_MarshalCIF ::
  "pkt \<Rightarrow> (bytes option \<Rightarrow> (packet_error, bytes) result) \<Rightarrow> packet_error fault option \<times> pkt" where
  "pkt_MarshalCIF p marshal =
     (if \<not> IsControlPacket (header p) then (Some (Err NotControlPacket), p)
      else case payload p of
        None \<Rightarrow> (Some Panic, p)
      | Some _ \<Rightarrow> (case marshal (Some []) of
          Inl e \<Rightarrow> (Some e, p\<lparr>payload := Some []\<rparr>)
        | Inr d \<Rightarrow> (None, p\<lparr>payload := Some d\<rparr>)))"

definition pkt_UnmarshalCIF ::
  "pkt \<Rightarrow> ('c \<Rightarrow> bytes \<Rightarrow> (packet_error, 'c) result) \<Rightarrow> 'c \<Rightarrow> (packet_error, 'c) result" where
  "pkt_UnmarshalCIF p unmarshal c =
     (if \<not> IsControlPacket (header p) then Inr c
      else case payload p of None \<Rightarrow> Inl Panic | Some d \<Rightarrow> unmarshal c d)"

section \<open>Round trips\<close>

text \<open>What of a header travels in a packet of its kind, and which values fit their field.\<close>

definition wf_header :: "PacketHeader \<Rightarrow> bool" where
  "wf_header h \<longleftrightarrow>
     (if IsControlPacket h then ControlType h < 0x8000
      else wf_Number (PacketSequenceNumber h) \<and> nmax (PacketSequenceNumber h) = MAX_SEQUENCENUMBER
         \<and> PacketPosition_IsValid (PacketPositionFlag h)
         \<and> PacketEncryption_IsValid (KeyBaseEncryptionFlag h) \<and> MessageNumber h < 0x4000000)"

definition received_header :: "PacketHeader \<Rightarrow> PacketHeader \<Rightarrow> PacketHeader" where
  "received_header h q =
     (if IsControlPacket h then
        q\<lparr>IsControlPacket := True, ControlType := ControlType h, SubType := SubType h,
          TypeSpecific := TypeSpecific h, Timestamp := Timestamp h,
          DestinationSocketId := DestinationSocketId h\<rparr>
      else
        q\<lparr>IsControlPacket := False, PacketSequenceNumber := PacketSequenceNumber h,
          PacketPositionFlag := PacketPositionFlag h, OrderFlag := OrderFlag h,
          KeyBaseEncryptionFlag := KeyBaseEncryptionFlag h,
          RetransmittedPacketFlag := RetransmittedPacketFlag h, MessageNumber := MessageNumber h,
          Timestamp := Timestamp h, DestinationSocketId := DestinationSocketId h\<rparr>)"

lemma bit_data_field:
  "n < 32 \<Longrightarrow> bit (data_field h) n =
     (if n < 26 then bit (MessageNumber h) n
      else if n = 26 then RetransmittedPacketFlag h
      else if n < 29 then bit (KeyBaseEncryptionFlag h) (n - 27)
      else if n = 29 then OrderFlag h
      else bit (PacketPositionFlag h) (n - 30))"
proof -
  assume n: "n < 32"
  define f where "f = push_bit 6 (PacketPosition_Val (PacketPositionFlag h) AND 3)
    OR (if OrderFlag h then push_bit 5 1 else 0)
    OR push_bit 3 (PacketEncryption_Val (KeyBaseEncryptionFlag h) AND 3)
    OR (if RetransmittedPacketFlag h then push_bit 2 1 else (0 :: u32))"
  have three: "(3 :: u32) = mask 2" by (simp add: mask_eq_exp_minus_1)
  have msk: "(0x03FFFFFF :: u32) = mask 26" by (simp add: mask_eq_exp_minus_1)
  have eq: "data_field h = push_bit 24 f + (MessageNumber h AND mask 26)"
    by (simp add: data_field_def f_def Let_def msk or.assoc)
  have fbit: "bit f m = (if m < 2 then False else if m = 2 then RetransmittedPacketFlag h
      else if m < 5 then bit (KeyBaseEncryptionFlag h) (m - 3)
      else if m = 5 then OrderFlag h
      else if m < 8 then bit (PacketPositionFlag h) (m - 6) else False)" if "m < 32" for m
    using that unfolding f_def three PacketPosition_Val_def PacketEncryption_Val_def
    by (auto simp: bit_simps bit_single_int)
  have disj: "push_bit 24 f AND (MessageNumber h AND mask 26) = 0"
    by (rule bit_word_eqI) (auto simp: bit_simps fbit)
  show ?thesis
    using n unfolding eq disjunctive_add_eq_or [OF disj]
    by (auto simp: bit_simps fbit)
qed


lemma clear_first_bit: "(x :: u16) AND NOT (push_bit 15 1) = take_bit 15 x"
  by (rule bit_word_eqI) (simp only: bit_and_iff bit_not_iff bit_push_bit_iff bit_take_bit_iff, auto)

lemma control_first_byte:
  assumes "(ct :: u16) < 0x8000"
  shows "take_bit 15 (ucast (ucast ct :: u8) OR push_bit 8 (ucast ((ucast (drop_bit 8 ct) :: u8) OR 0x80)))
    = ct" (is "take_bit 15 ?l = ct")
proof (rule bit_word_eqI)
  fix n assume n: "n < LENGTH(16)"
  have hi: "\<not> bit ct 15" using assms word_less_exp_bit [of ct 15 15] by simp
  have "bit (take_bit 15 ?l) n = bit ct n" if "n < 8"
    using that by (simp add: bit_simps)
  moreover have "bit (take_bit 15 ?l) n = bit ct n" if "8 \<le> n" "n < 15"
    using that by (auto simp: bit_simps bit_single_int)
  moreover have "bit (take_bit 15 ?l) n = bit ct n" if "n = 15"
    using that hi by (simp add: bit_simps)
  ultimately show "bit (take_bit 15 ?l) n = bit ct n" using n by fastforce
qed

lemma header_bytes_control:
  "IsControlPacket h \<Longrightarrow> header_bytes h =
     (ucast (drop_bit 8 (ControlType h)) OR 0x80) # ucast (ControlType h) # put16 (SubType h) @
       put32 (TypeSpecific h) @ put32 (Timestamp h) @ put32 (DestinationSocketId h)"
  by (simp add: header_bytes_def put16_def [of "ControlType h"] Let_def)

lemma header_bytes_data:
  "\<not> IsControlPacket h \<Longrightarrow> header_bytes h =
     put32 (nvalue (PacketSequenceNumber h)) @ put32 (data_field h) @
       put32 (Timestamp h) @ put32 (DestinationSocketId h)"
  by (simp add: header_bytes_def Number_Val_def Let_def)

lemma length_header_bytes [simp]: "length (header_bytes h) = 16"
  by (cases "IsControlPacket h") (simp_all add: header_bytes_control header_bytes_data)

lemma data_field_parts:
  assumes "PacketPosition_IsValid (PacketPositionFlag h)"
    and "PacketEncryption_IsValid (KeyBaseEncryptionFlag h)" and "MessageNumber h < 0x4000000"
  shows "ucast (drop_bit 6 ((ucast (drop_bit 24 (data_field h)) :: u8) AND 0xC0)) = PacketPositionFlag h" (is "?p = _")
    and "bit (ucast (drop_bit 24 (data_field h)) :: u8) 5 = OrderFlag h"
    and "ucast (drop_bit 3 ((ucast (drop_bit 24 (data_field h)) :: u8) AND 0x18)) = KeyBaseEncryptionFlag h" (is "?e = _")
    and "bit (ucast (drop_bit 24 (data_field h)) :: u8) 2 = RetransmittedPacketFlag h"
    and "data_field h AND NOT 0xFC000000 = MessageNumber h" (is "?m = _")
proof -
  have m: "(0xC0 :: u8) = push_bit 6 (mask 2)" "(0x18 :: u8) = push_bit 3 (mask 2)"
    "(NOT 0xFC000000 :: u32) = mask 26" by (simp_all add: mask_eq_exp_minus_1)
  have p: "2 \<le> n \<Longrightarrow> \<not> bit (PacketPositionFlag h) n" and e: "2 \<le> n \<Longrightarrow> \<not> bit (KeyBaseEncryptionFlag h) n"
    and g: "26 \<le> n \<Longrightarrow> \<not> bit (MessageNumber h) n" for n
    using assms word_less_exp_bit [of _ 2 n, where ?'a = 64] word_less_exp_bit [of _ 26 n, where ?'a = 32]
    by (simp_all add: PacketPosition_IsValid_def PacketEncryption_IsValid_def)
  show "?p = PacketPositionFlag h" unfolding m
    by (rule bit_word_eqI, case_tac "n < 2") (auto simp: bit_simps bit_data_field p)
  show "?e = KeyBaseEncryptionFlag h" unfolding m
    by (rule bit_word_eqI, case_tac "n < 2") (auto simp: bit_simps bit_data_field e)
  show "?m = MessageNumber h" unfolding m
    by (rule bit_word_eqI, case_tac "n < 26") (auto simp: bit_simps bit_data_field g)
qed (simp_all add: bit_ucast_iff bit_drop_bit_eq bit_data_field)

lemma pkt_Unmarshal_header_bytes:
  assumes "wf_header h" and "payload q = Some b"
  shows "pkt_Unmarshal q (header_bytes h @ d) =
    Inr \<lparr>header = received_header h (header q), payload = Some d\<rparr>"
proof (cases "IsControlPacket h")
  case True
  have ct: "ControlType h < 0x8000" using assms True by (simp add: wf_header_def)
  have b: "bit ((x :: u8) OR 0x80) 7" for x by (simp add: bit_or_iff)
  show ?thesis
    using True assms(2) control_first_byte [OF ct] b
    unfolding pkt_Unmarshal_def u8_and_masks clear_first_bit header_bytes_control [OF True]
    by (simp add: received_header_def Let_def codec be16_two)
next
  case False
  then have wf: "PacketPosition_IsValid (PacketPositionFlag h)"
    "PacketEncryption_IsValid (KeyBaseEncryptionFlag h)" "MessageNumber h < 0x4000000"
    and n: "nvalue (PacketSequenceNumber h) \<le> 0x7FFFFFFF"
    "Number_New (nvalue (PacketSequenceNumber h)) MAX_SEQUENCENUMBER = PacketSequenceNumber h"
    using assms(1) Number_New_val_id [of "PacketSequenceNumber h"]
    by (auto simp: wf_header_def wf_Number_def Number_Val_def)
  have b: "\<not> bit (ucast (drop_bit 24 (nvalue (PacketSequenceNumber h))) :: u8) 7"
    using word_less_exp_bit [of "nvalue (PacketSequenceNumber h)" 31 31] n
    by (simp add: bit_ucast_iff bit_drop_bit_eq word_le_nat_alt word_less_nat_alt)
  have nth: "(put32 x @ ys) ! 0 = ucast (drop_bit 24 x)" "(put32 y @ put32 x @ ys) ! 4 = ucast (drop_bit 24 x)"
    for x y :: u32 and ys
    by (simp_all add: put32_def)
  have rd: "be32 (put32 a @ put32 b @ put32 c @ put32 e @ d) 0 = a"
    "be32 (put32 a @ put32 b @ put32 c @ put32 e @ d) 4 = b"
    "be32 (put32 a @ put32 b @ put32 c @ put32 e @ d) 8 = c"
    "be32 (put32 a @ put32 b @ put32 c @ put32 e @ d) 12 = e" for a b c e
    by (simp_all add: codec)
  show ?thesis
    unfolding pkt_Unmarshal_def u8_and_masks header_bytes_data [OF False] append_assoc nth rd
      data_field_parts [OF wf] n(2) Let_def
    using False assms(2) b by (simp add: received_header_def)
qed

lemma data_field_be32:
  assumes "PacketPositionFlag h = ucast (drop_bit 6 ((b ! i) AND 0xC0))"
    and "OrderFlag h = bit (b ! i) 5"
    and "KeyBaseEncryptionFlag h = ucast (drop_bit 3 ((b ! i) AND 0x18))"
    and "RetransmittedPacketFlag h = bit (b ! i) 2"
    and "MessageNumber h = be32 b i AND NOT 0xFC000000"
  shows "data_field h = be32 b i"
proof (rule bit_word_eqI)
  fix n assume n: "n < LENGTH(32)"
  have m: "(0xC0 :: u8) = push_bit 6 (mask 2)" "(0x18 :: u8) = push_bit 3 (mask 2)"
    "(NOT 0xFC000000 :: u32) = mask 26" by (simp_all add: mask_eq_exp_minus_1)
  have "n - 24 = 3 + (n - 27)" if "27 \<le> n" using that by simp
  moreover have "n - 24 = 6 + (n - 30)" if "30 \<le> n" using that by simp
  moreover note a = assms [unfolded m]
  ultimately show "bit (data_field h) n = bit (be32 b i) n"
    using n by (auto simp: bit_data_field a bit_be32 bit_and_iff bit_mask_iff bit_ucast_iff
        bit_drop_bit_eq bit_push_bit_iff less_Suc_eq)
qed

lemma restore_first_bit:
  "bit (b ! i) 7 \<Longrightarrow> ucast (drop_bit 8 (take_bit 15 (be16 b i))) OR 0x80 = b ! i"
  by (rule bit_word_eqI, case_tac "n = 7") (auto simp: be16_def bit_simps bit_single_int)

lemma restore_second_byte: "ucast (take_bit 15 (be16 b i)) = b ! (i + 1)"
  by (rule bit_word_eqI) (auto simp: be16_def bit_simps)

lemma header_bytes_Unmarshal:
  assumes "pkt_Unmarshal q data = Inr p"
  shows "header_bytes (header p) @ pkt_Data p = data"
proof -
  have len: "16 \<le> length data" using assms by (auto simp: pkt_Unmarshal_def split: if_splits)
  have data: "pkt_Data p = drop 16 data"
    using assms by (auto simp: pkt_Unmarshal_def pkt_Data_def Let_def split: if_splits option.splits)
  have "header_bytes (header p) = take 16 data"
  proof (cases "bit (data ! 0) 7")
    case True
    then have "header_bytes (header p) =
      (ucast (drop_bit 8 (take_bit 15 (be16 data 0))) OR 0x80) # ucast (take_bit 15 (be16 data 0)) #
        put16 (be16 data 2) @ put32 (be32 data 4) @ put32 (be32 data 8) @ put32 (be32 data 12)"
      using assms unfolding pkt_Unmarshal_def u8_and_masks clear_first_bit Let_def
      by (auto simp: header_bytes_control split: if_splits option.splits)
    then show ?thesis using len True
      by (simp add: take_16 put16_be16 put32_be32 restore_first_bit restore_second_byte)
  next
    case False
    then have small: "be32 data 0 \<le> 0x7FFFFFFF"
      using be32_small [of data 0] by simp
    have "data_field (header p) = be32 data 4"
      using assms False unfolding pkt_Unmarshal_def u8_and_masks Let_def
      by (intro data_field_be32) (auto split: if_splits option.splits)
    moreover have "\<not> IsControlPacket (header p)" "nvalue (PacketSequenceNumber (header p)) = be32 data 0"
      "Timestamp (header p) = be32 data 8" "DestinationSocketId (header p) = be32 data 12"
      using assms False small unfolding pkt_Unmarshal_def u8_and_masks Let_def
      by (auto simp: Number_New_def Let_def split: if_splits option.splits)
    ultimately show ?thesis using len
      by (simp add: header_bytes_data take_16 put32_be32 numeral_2_eq_2)
  qed
  then show ?thesis using data by simp
qed

lemma wf_header_Unmarshal:
  assumes "pkt_Unmarshal q data = Inr p"
  shows "wf_header (header p)"
proof -
  have "take_bit 15 (be16 data 0) < 0x8000"
    using word_less_exp_iff_take_bit [of 15 "take_bit 15 (be16 data 0)"] by simp
  moreover have "(ucast (drop_bit 6 (x AND 0xC0)) :: u64) < 4" "(ucast (drop_bit 3 (x AND 0x18)) :: u64) < 4"
    for x :: u8
    using two_bit_field [of 6 x] two_bit_field [of 3 x] by (simp_all add: mask_eq_exp_minus_1)
  moreover have "(x :: u32) AND NOT 0xFC000000 < 0x4000000" for x
  proof -
    have m: "(NOT 0xFC000000 :: u32) = mask 26" by (simp add: mask_eq_exp_minus_1)
    show ?thesis unfolding m
      using word_less_exp_iff_take_bit [of 26 "take_bit 26 x"] by (simp add: take_bit_eq_mask)
  qed
  ultimately show ?thesis
    using assms wf_New [of "be32 data 0" MAX_SEQUENCENUMBER] unat_lt_u32 [of "be32 data 0"]
    unfolding pkt_Unmarshal_def clear_first_bit Let_def
    by (auto simp: wf_header_def PacketPosition_IsValid_def PacketEncryption_IsValid_def
        split: if_splits option.splits)
qed

text \<open>
  C31. A well-formed packet that is marshalled and unmarshalled into any commissioned packet comes back
  with every header field that travels and with its payload; the written bytes are appended to the
  writer and are 16 more than the payload.
\<close>

theorem pkt_Marshal_Unmarshal:
  assumes "wf_header (header p)" and "payload p = Some d" and "commissioned q"
  shows "\<exists>bs. pkt_Marshal p (Some w) = Inr (w @ bs) \<and> length bs = 16 + length d \<and>
    pkt_Unmarshal q bs = Inr \<lparr>header = received_header (header p) (header q), payload = Some d\<rparr>"
  using assms pkt_Unmarshal_header_bytes [of "header p" q _ d]
  by (auto simp: pkt_Marshal_def commissioned_def intro!: exI [of _ "header_bytes (header p) @ d"])

theorem pkt_Marshal_Unmarshal_witness:
  "\<exists>bs. pkt_Marshal (NewPacket None \<lparr>payload := Some [1, 2, 3]\<rparr>) (Some [9]) = Inr ([9] @ bs) \<and>
    length bs = 19 \<and> pkt_Unmarshal (NewPacket None) bs = Inr (NewPacket None \<lparr>payload := Some [1, 2, 3]\<rparr>)"
proof -
  have "wf_header (header (NewPacket None))"
    by (simp add: wf_header_def NewPacket_def wf_New PacketPosition_IsValid_def PacketEncryption_IsValid_def)
  then show ?thesis
    using pkt_Marshal_Unmarshal
      [of "NewPacket None \<lparr>payload := Some [1, 2, 3]\<rparr>" "[1, 2, 3]" "NewPacket None" "[9]"]
    by (simp add: NewPacket_def commissioned_def received_header_def)
qed

text \<open>
  C32. Unmarshalling a byte string shorter than a header is an error; every other byte string is read
  into a well-formed packet whose payload is the rest of the string, and marshalling that packet
  writes the same bytes again. No information of a received packet is lost.
\<close>

theorem pkt_Unmarshal_Marshal:
  assumes "commissioned q"
  shows "if length data < 16 then pkt_Unmarshal q data = Inl (Err DataTooShort)
    else \<exists>p. pkt_Unmarshal q data = Inr p \<and> wf_header (header p) \<and> pkt_Data p = drop 16 data
      \<and> pkt_Marshal p (Some w) = Inr (w @ data)"
proof (cases "length data < 16")
  case False
  then obtain p where p: "pkt_Unmarshal q data = Inr p"
    using assms by (auto simp: pkt_Unmarshal_def commissioned_def Let_def)
  then have "payload p = Some (drop 16 data)"
    by (auto simp: pkt_Unmarshal_def Let_def split: if_splits option.splits)
  with p header_bytes_Unmarshal [OF p] wf_header_Unmarshal [OF p] False show ?thesis
    by (auto simp: pkt_Marshal_def pkt_Data_def)
qed (simp add: pkt_Unmarshal_def)

theorem pkt_Unmarshal_Marshal_witness:
  "\<exists>p. pkt_Unmarshal (NewPacket None) (replicate 17 0xA5) = Inr p \<and> wf_header (header p) \<and>
     pkt_Data p = [0xA5] \<and> pkt_Marshal p (Some []) = Inr (replicate 17 0xA5)"
  using pkt_Unmarshal_Marshal [of "NewPacket None" "replicate 17 0xA5" "[]"]
  by (simp add: commissioned_def NewPacket_def)

end
