(* ===== verification/Packet_CIF.thy ===== *)
theory Packet_CIF
  imports Packet
begin

text \<open>
  The control information fields of \<^verbatim>\<open>packet/packet.go\<close> apart from the handshake: the handshake
  extension, the key material message, ACK, NAK and shutdown, each with its \<open>Unmarshal\<close> and
  \<open>Marshal\<close>.

  The locale \<open>cif_codec\<close> states the contract of a control information field: what \<open>Marshal\<close>
  writes, \<open>Unmarshal\<close> reads back. Inside it the round trip of a whole control packet over the wire
  is proved once; every field is an interpretation.
\<close>

section \<open>The contract of a control information field\<close>

text \<open>
  \<open>valid\<close> are the values that are meant to be sent, \<open>merge c c0\<close> is what arrives when \<open>c\<close> is
  read into the variable \<open>c0\<close>: fields that do not travel keep their old value.
\<close>

locale cif_codec =
  fixes enc :: "'c \<Rightarrow> bytes option \<Rightarrow> (packet_error, bytes) result"
    and dec :: "'c \<Rightarrow> bytes \<Rightarrow> (packet_error, 'c) result"
    and valid :: "'c \<Rightarrow> bool"
    and merge :: "'c \<Rightarrow> 'c \<Rightarrow> 'c"
  assumes nil_writer: "enc c None = Inl (Err InvalidWriter)"
    and round_trip: "valid c \<Longrightarrow> \<exists>bs. enc c (Some w) = Inr (w @ bs) \<and> dec c0 bs = Inr (merge c c0)"
begin

lemma wire_round_trip:
  assumes "valid c" and "IsControlPacket (header p)" and "ControlType (header p) < 0x8000"
    and "commissioned p"
  shows "\<exists>p' bs q. pkt_MarshalCIF p (enc c) = (None, p') \<and> pkt_Marshal p' (Some []) = Inr bs
    \<and> NewPacketFromData addr bs = Inr q
    \<and> header q = received_header (header p) (header (NewPacket addr))
    \<and> pkt_UnmarshalCIF q dec c0 = Inr (merge c c0)"
proof -
  obtain d where d: "enc c (Some []) = Inr d" "dec c0 d = Inr (merge c c0)"
    using round_trip [OF assms(1), of "[]" c0] by auto
  let ?p = "p\<lparr>payload := Some d\<rparr>"
  have "pkt_MarshalCIF p (enc c) = (None, ?p)"
    using assms d by (auto simp: pkt_MarshalCIF_def commissioned_def)
  moreover have "pkt_Marshal ?p (Some []) = Inr (header_bytes (header p) @ d)"
    by (simp add: pkt_Marshal_def)
  moreover have "NewPacketFromData addr (header_bytes (header p) @ d) =
    Inr \<lparr>header = received_header (header p) (header (NewPacket addr)), payload = Some d\<rparr>"
    using pkt_Unmarshal_header_bytes [of "header p" "NewPacket addr" "[]" d] assms
    by (simp add: NewPacketFromData_def Let_def wf_header_def NewPacket_def length_0_conv [symmetric]
        del: length_0_conv)
  ultimately show ?thesis
    using assms(2) d by (auto simp: pkt_UnmarshalCIF_def received_header_def)
qed

end

section \<open>Handshake extension\<close>

record CIFHandshakeExtensionFlags =
  TSBPDSND :: bool
  TSBPDRCV :: bool
  CRYPT :: bool
  TLPKTDROP :: bool
  PERIODICNAK :: bool
  REXMITFLG :: bool
  STREAM :: bool
  PACKET_FILTER :: bool

record CIFHandshakeExtension =
  SRTVersion :: u32
  SRTFlags :: CIFHandshakeExtensionFlags
  RecvTSBPDDelay :: u16
  SendTSBPDDelay :: u16

definition SRTFLAG_TSBPDSND :: u32 where "SRTFLAG_TSBPDSND = push_bit 0 1"
definition SRTFLAG_TSBPDRCV :: u32 where "SRTFLAG_TSBPDRCV = push_bit 1 1"
definition SRTFLAG_CRYPT :: u32 where "SRTFLAG_CRYPT = push_bit 2 1"
definition SRTFLAG_TLPKTDROP :: u32 where "SRTFLAG_TLPKTDROP = push_bit 3 1"
definition SRTFLAG_PERIODICNAK :: u32 where "SRTFLAG_PERIODICNAK = push_bit 4 1"
definition SRTFLAG_REXMITFLG :: u32 where "SRTFLAG_REXMITFLG = push_bit 5 1"
definition SRTFLAG_STREAM :: u32 where "SRTFLAG_STREAM = push_bit 6 1"
definition SRTFLAG_PACKET_FILTER :: u32 where "SRTFLAG_PACKET_FILTER = push_bit 7 1"

lemmas SRTFLAG_defs = SRTFLAG_TSBPDSND_def SRTFLAG_TSBPDRCV_def SRTFLAG_CRYPT_def
  SRTFLAG_TLPKTDROP_def SRTFLAG_PERIODICNAK_def SRTFLAG_REXMITFLG_def SRTFLAG_STREAM_def
  SRTFLAG_PACKET_FILTER_def

definition flags_of_word :: "u32 \<Rightarrow> CIFHandshakeExtensionFlags" where
  "flags_of_word srtFlags =
     \<lparr>TSBPDSND = srtFlags AND SRTFLAG_TSBPDSND \<noteq> 0,
      TSBPDRCV = srtFlags AND SRTFLAG_TSBPDRCV \<noteq> 0,
      CRYPT = srtFlags AND SRTFLAG_CRYPT \<noteq> 0,
      TLPKTDROP = srtFlags AND SRTFLAG_TLPKTDROP \<noteq> 0,
      PERIODICNAK = srtFlags AND SRTFLAG_PERIODICNAK \<noteq> 0,
      REXMITFLG = srtFlags AND SRTFLAG_REXMITFLG \<noteq> 0,
      STREAM = srtFlags AND SRTFLAG_STREAM \<noteq> 0,
      PACKET_FILTER = srtFlags AND SRTFLAG_PACKET_FILTER \<noteq> 0\<rparr>"

definition word_of_flags :: "CIFHandshakeExtensionFlags \<Rightarrow> u32" where
  "word_of_flags f =
     (let srtFlags = 0;
          srtFlags = (if TSBPDSND f then srtFlags OR SRTFLAG_TSBPDSND else srtFlags);
          srtFlags = (if TSBPDRCV f then srtFlags OR SRTFLAG_TSBPDRCV else srtFlags);
          srtFlags = (if CRYPT f then srtFlags OR SRTFLAG_CRYPT else srtFlags);
          srtFlags = (if TLPKTDROP f then srtFlags OR SRTFLAG_TLPKTDROP else srtFlags);
          srtFlags = (if PERIODICNAK f then srtFlags OR SRTFLAG_PERIODICNAK else srtFlags);
          srtFlags = (if REXMITFLG f then srtFlags OR SRTFLAG_REXMITFLG else srtFlags);
          srtFlags = (if STREAM f then srtFlags OR SRTFLAG_STREAM else srtFlags)
      in if PACKET_FILTER f then srtFlags OR SRTFLAG_PACKET_FILTER else srtFlags)"

definition CIFHandshakeExtension_Unmarshal ::
  "CIFHandshakeExtension \<Rightarrow> bytes \<Rightarrow> (packet_error, CIFHandshakeExtension) result" where
  "CIFHandshakeExtension_Unmarshal c data =
     (if length data < 12 then Inl (Err DataTooShort)
      else Inr (c\<lparr>SRTVersion := be32 data 0, SRTFlags := flags_of_word (be32 data 4),
                 RecvTSBPDDelay := be16 data 8, SendTSBPDDelay := be16 data 10\<rparr>))"

definition CIFHandshakeExtension_Marshal ::
  "CIFHandshakeExtension \<Rightarrow> bytes option \<Rightarrow> (packet_error, bytes) result" where
  "CIFHandshakeExtension_Marshal c w =
     (case w of
        None \<Rightarrow> Inl (Err InvalidWriter)
      | Some out \<Rightarrow> Inr (out @ put32 (SRTVersion c) @ put32 (word_of_flags (SRTFlags c)) @
                         put16 (RecvTSBPDDelay c) @ put16 (SendTSBPDDelay c)))"

lemma if_or: "(if b then x OR k else x) = x OR (if b then k else (0 :: 'a :: len word))"
  by simp

lemma flags_word_round_trip: "flags_of_word (word_of_flags f) = f"
proof -
  have "bit (word_of_flags f) 0 = TSBPDSND f" "bit (word_of_flags f) 1 = TSBPDRCV f"
    "bit (word_of_flags f) 2 = CRYPT f" "bit (word_of_flags f) 3 = TLPKTDROP f"
    "bit (word_of_flags f) 4 = PERIODICNAK f" "bit (word_of_flags f) 5 = REXMITFLG f"
    "bit (word_of_flags f) 6 = STREAM f" "bit (word_of_flags f) 7 = PACKET_FILTER f"
    unfolding word_of_flags_def Let_def if_or SRTFLAG_defs
    by (simp_all add: bit_or_iff)
  then show ?thesis
    unfolding flags_of_word_def SRTFLAG_defs and_bit_neq_0 by simp
qed

interpretation hsext: cif_codec CIFHandshakeExtension_Marshal CIFHandshakeExtension_Unmarshal
  "\<lambda>_. True" "\<lambda>c c0. c"
  by unfold_locales
    (auto simp: CIFHandshakeExtension_Marshal_def CIFHandshakeExtension_Unmarshal_def codec
      flags_word_round_trip)

section \<open>Key material\<close>

definition KM_NOSECRET :: u32 where [simp]: "KM_NOSECRET = 3"
definition KM_BADSECRET :: u32 where [simp]: "KM_BADSECRET = 4"

record CIFKeyMaterialExtension =
  kmError :: u32
  kmS :: u8
  kmVersion :: u8
  kmPacketType :: u8
  kmSign :: u16
  kmResv1 :: u8
  KeyBasedEncryption :: PacketEncryption
  KeyEncryptionKeyIndex :: u32
  kmCipher :: u8
  kmAuthentication :: u8
  StreamEncapsulation :: u8
  kmResv2 :: u8
  kmResv3 :: u16
  SLen :: u16
  KLen :: u16
  kmSalt :: bytes
  kmWrap :: bytes

text \<open>The zero value of the struct, as in \<^verbatim>\<open>&CIFKeyMaterialExtension{}\<close>.\<close>

definition zero_KM :: CIFKeyMaterialExtension where
  "zero_KM = \<lparr>kmError = 0, kmS = 0, kmVersion = 0, kmPacketType = 0, kmSign = 0, kmResv1 = 0,
     KeyBasedEncryption = 0, KeyEncryptionKeyIndex = 0, kmCipher = 0, kmAuthentication = 0,
     StreamEncapsulation = 0, kmResv2 = 0, kmResv3 = 0, SLen = 0, KLen = 0, kmSalt = [], kmWrap = []\<rparr>"

definition wrap_length :: "PacketEncryption \<Rightarrow> u16 \<Rightarrow> nat" where
  "wrap_length kk klen = (if kk = EvenAndOddKey then 2 else 1) * unat klen + 8"

definition KM_Unmarshal_tail ::
  "CIFKeyMaterialExtension \<Rightarrow> bytes \<Rightarrow> (packet_error, CIFKeyMaterialExtension) result" where
  "KM_Unmarshal_tail c data =
     (let c = c\<lparr>kmResv2 := data ! 11, kmResv3 := be16 data 12,
               SLen := ucast (data ! 14) * 4, KLen := ucast (data ! 15) * 4\<rparr> in
      if \<not> (KLen c = 16 \<or> KLen c = 24 \<or> KLen c = 32) then Inl (Err InvalidKeyLength)
      else if SLen c \<noteq> 0 \<and> SLen c \<noteq> 16 then Inl (Err InvalidSaltLength)
      else if SLen c \<noteq> 0 \<and> length (drop 16 data) < 16 then Inl (Err DataTooShort)
      else
        let offset = (if SLen c \<noteq> 0 then 32 else 16);
            c = (if SLen c \<noteq> 0 then c\<lparr>kmSalt := take 16 (drop 16 data)\<rparr> else c);
            m = wrap_length (KeyBasedEncryption c) (KLen c)
        in if length (drop offset data) < m then Inl (Err DataTooShort)
           else Inr (c\<lparr>kmWrap := take m (drop offset data)\<rparr>))"

definition CIFKeyMaterialExtension_Unmarshal ::
  "CIFKeyMaterialExtension \<Rightarrow> bytes \<Rightarrow> (packet_error, CIFKeyMaterialExtension) result" where
  "CIFKeyMaterialExtension_Unmarshal c data =
     (if length data = 4 then
        let c = c\<lparr>kmError := le32 data 0\<rparr> in
        if kmError c \<noteq> KM_NOSECRET \<and> kmError c \<noteq> KM_BADSECRET
        then Inl (Err (InvalidKMError (kmError c))) else Inr c
      else if length data < 16 then Inl (Err DataTooShort)
      else
        let c = c\<lparr>kmS := drop_bit 7 ((data ! 0) AND 0x80)\<rparr> in
        if kmS c \<noteq> 0 then Inl (Err InvalidS)
        else let c = c\<lparr>kmVersion := drop_bit 4 ((data ! 0) AND 0x70)\<rparr> in
        if kmVersion c \<noteq> 1 then Inl (Err InvalidVersion)
        else let c = c\<lparr>kmPacketType := (data ! 0) AND 0x0F\<rparr> in
        if kmPacketType c \<noteq> 2 then Inl (Err (InvalidPacketType (kmPacketType c)))
        else let c = c\<lparr>kmSign := be16 data 1\<rparr> in
        if kmSign c \<noteq> 0x2029 then Inl (Err (InvalidSignature (kmSign c)))
        else let c = c\<lparr>kmResv1 := drop_bit 2 ((data ! 3) AND 0xFC),
                       KeyBasedEncryption := ucast ((data ! 3) AND 0x03)\<rparr> in
        if \<not> PacketEncryption_IsValid (KeyBasedEncryption c) \<or> KeyBasedEncryption c = UnencryptedPacket
        then Inl (Err InvalidKK)
        else let c = c\<lparr>KeyEncryptionKeyIndex := be32 data 4\<rparr> in
        if KeyEncryptionKeyIndex c \<noteq> 0 then Inl (Err (InvalidKEKI (KeyEncryptionKeyIndex c)))
        else let c = c\<lparr>kmCipher := data ! 8, kmAuthentication := data ! 9,
                       StreamEncapsulation := data ! 10\<rparr> in
        if StreamEncapsulation c \<noteq> 2 then Inl (Err (InvalidSE (StreamEncapsulation c)))
        else KM_Unmarshal_tail c data)"

text \<open>The slice \<^verbatim>\<open>buffer[:offset]\<close> of the 128-byte buffer panics when it would exceed it.\<close>

definition KM_head :: "CIFKeyMaterialExtension \<Rightarrow> bytes" where
  "KM_head c =
     [(push_bit 7 (kmS c) AND 0x80) OR (push_bit 4 (kmVersion c) AND 0x70) OR (kmPacketType c AND 0x0F)]
     @ put16 (kmSign c)
     @ [(push_bit 2 (kmResv1 c) AND 0xFC) OR (ucast (KeyBasedEncryption c) AND 0x03)]
     @ put32 (KeyEncryptionKeyIndex c)
     @ [kmCipher c, kmAuthentication c, StreamEncapsulation c, kmResv2 c]
     @ put16 (kmResv3 c)
     @ [ucast (SLen c div 4), ucast (KLen c div 4)]"

definition CIFKeyMaterialExtension_Marshal ::
  "CIFKeyMaterialExtension \<Rightarrow> bytes option \<Rightarrow> (packet_error, bytes) result" where
  "CIFKeyMaterialExtension_Marshal c w =
     (case w of
        None \<Rightarrow> Inl (Err InvalidWriter)
      | Some out \<Rightarrow>
          (let b = KM_head c @ (if SLen c \<noteq> 0 then kmSalt c else []) @ kmWrap c in
           if length b > 128 then Inl Panic else Inr (out @ b)))"

definition valid_KM :: "CIFKeyMaterialExtension \<Rightarrow> bool" where
  "valid_KM c \<longleftrightarrow> kmS c = 0 \<and> kmVersion c = 1 \<and> kmPacketType c = 2 \<and> kmSign c = 0x2029
     \<and> kmResv1 c < 64 \<and> PacketEncryption_IsValid (KeyBasedEncryption c)
     \<and> KeyBasedEncryption c \<noteq> UnencryptedPacket \<and> KeyEncryptionKeyIndex c = 0
     \<and> StreamEncapsulation c = 2 \<and> (KLen c = 16 \<or> KLen c = 24 \<or> KLen c = 32)
     \<and> (SLen c = 0 \<or> SLen c = 16 \<and> length (kmSalt c) = 16)
     \<and> length (kmWrap c) = wrap_length (KeyBasedEncryption c) (KLen c)"

definition merge_KM :: "CIFKeyMaterialExtension \<Rightarrow> CIFKeyMaterialExtension \<Rightarrow> CIFKeyMaterialExtension" where
  "merge_KM c c0 =
     c\<lparr>kmError := kmError c0, kmSalt := (if SLen c = 0 then kmSalt c0 else kmSalt c)\<rparr>"

lemma length_KM_head [simp]: "length (KM_head c) = 16"
  by (simp add: KM_head_def)

lemma KM_byte3_masks: "(0xFC :: u8) = push_bit 2 (mask 6)" "(0x03 :: u8) = mask 2"
  by (simp_all add: mask_eq_exp_minus_1)

lemma KM_byte3:
  assumes "(r :: u8) < 64" and "(kk :: u64) < 4"
  shows "drop_bit 2 (((push_bit 2 r AND 0xFC) OR (ucast kk AND 0x03)) AND 0xFC) = r"
    and "ucast (((push_bit 2 r AND 0xFC) OR (ucast kk AND 0x03)) AND (0x03 :: u8)) = kk"
proof -
  have r: "\<not> bit r n" if "6 \<le> n" for n
    using assms(1) word_less_exp_bit [of r 6 n] that by simp
  have k: "\<not> bit kk n" if "2 \<le> n" for n
    using assms(2) word_less_exp_bit [of kk 2 n] that by simp
  show "drop_bit 2 (((push_bit 2 r AND 0xFC) OR (ucast kk AND 0x03)) AND 0xFC) = r"
    unfolding KM_byte3_masks
    by (rule bit_word_eqI, case_tac "n < 6") (auto simp: bit_simps r)
  show "ucast (((push_bit 2 r AND 0xFC) OR (ucast kk AND 0x03)) AND (0x03 :: u8)) = kk"
    unfolding KM_byte3_masks
    by (rule bit_word_eqI, case_tac "n < 2") (auto simp: bit_simps k)
qed

lemma KM_head_fields:
  assumes "valid_KM c" and "data = KM_head c @ ys"
  shows "data ! 0 = 0x12" and "be16 data 1 = 0x2029"
    and "drop_bit 2 ((data ! 3) AND 0xFC) = kmResv1 c"
    and "ucast ((data ! 3) AND 0x03) = KeyBasedEncryption c"
    and "be32 data 4 = 0"
    and "data ! 8 = kmCipher c" "data ! 9 = kmAuthentication c" "data ! 10 = 2"
    and "data ! 11 = kmResv2 c" and "be16 data 12 = kmResv3 c"
    and "ucast (data ! 14) * 4 = SLen c" and "ucast (data ! 15) * 4 = KLen c"
proof -
  have b3: "data ! 3 = (push_bit 2 (kmResv1 c) AND 0xFC) OR (ucast (KeyBasedEncryption c) AND 0x03)"
    unfolding assms(2) KM_head_def by (simp add: nth_append)
  have k: "kmResv1 c < 64" "KeyBasedEncryption c < 4"
    using assms(1) by (auto simp: valid_KM_def PacketEncryption_IsValid_def)
  show "drop_bit 2 ((data ! 3) AND 0xFC) = kmResv1 c" "ucast ((data ! 3) AND 0x03) = KeyBasedEncryption c"
    unfolding b3 by (rule KM_byte3 [OF k])+
qed (use assms in \<open>auto simp: KM_head_def valid_KM_def codec nth_append\<close>)

lemma KM_round_trip:
  assumes "valid_KM c" and "data = KM_head c @ (if SLen c \<noteq> 0 then kmSalt c else []) @ kmWrap c @ ys"
  shows "CIFKeyMaterialExtension_Unmarshal c0 data = Inr (merge_KM c c0)"
proof -
  let ?m = "wrap_length (KeyBasedEncryption c) (KLen c)"
  note f = KM_head_fields [OF assms]
  have len: "length data = 16 + (if SLen c \<noteq> 0 then 16 else 0) + ?m + length ys"
    using assms by (auto simp: valid_KM_def)
  have sw: "SLen c \<noteq> 0 \<Longrightarrow> take 16 (drop 16 data) = kmSalt c"
    "take ?m (drop (if SLen c \<noteq> 0 then 32 else 16) data) = kmWrap c"
    using assms by (auto simp: valid_KM_def)
  show ?thesis
    using assms(1) sw
    unfolding CIFKeyMaterialExtension_Unmarshal_def KM_Unmarshal_tail_def f
    by (cases c; cases c0) (simp add: Let_def len valid_KM_def f merge_KM_def; elim conjE disjE; simp)
qed

interpretation km: cif_codec CIFKeyMaterialExtension_Marshal CIFKeyMaterialExtension_Unmarshal
  valid_KM merge_KM
proof
  fix c c0 w assume v: "valid_KM c"
  let ?b = "KM_head c @ (if SLen c \<noteq> 0 then kmSalt c else []) @ kmWrap c"
  have "wrap_length (KeyBasedEncryption c) (KLen c) \<le> 72"
    using v by (auto simp: valid_KM_def wrap_length_def)
  then have "CIFKeyMaterialExtension_Marshal c (Some w) = Inr (w @ ?b)"
    using v by (auto simp: CIFKeyMaterialExtension_Marshal_def Let_def valid_KM_def)
  then show "\<exists>bs. CIFKeyMaterialExtension_Marshal c (Some w) = Inr (w @ bs) \<and>
      CIFKeyMaterialExtension_Unmarshal c0 bs = Inr (merge_KM c c0)"
    using KM_round_trip [OF v, of ?b "[]"] by auto
qed (simp add: CIFKeyMaterialExtension_Marshal_def)

text \<open>The converse: a message that is accepted is written back byte for byte.\<close>

lemma u8_parts:
  "drop_bit 7 ((x :: u8) AND 0x80) = 0 \<Longrightarrow> drop_bit 4 (x AND 0x70) = 1 \<Longrightarrow> x AND 0x0F = 2 \<Longrightarrow> x = 0x12"
proof -
  assume a: "drop_bit 7 (x AND 0x80) = 0" "drop_bit 4 (x AND 0x70) = 1" "x AND 0x0F = 2"
  have m: "(0x80 :: u8) = push_bit 7 (mask 1)" "(0x70 :: u8) = push_bit 4 (mask 3)" "(0x0F :: u8) = mask 4"
    by (simp_all add: mask_eq_exp_minus_1)
  have "x = push_bit 7 (drop_bit 7 (x AND 0x80)) OR push_bit 4 (drop_bit 4 (x AND 0x70)) OR (x AND 0x0F)"
    unfolding m by (rule bit_word_eqI, case_tac "n = 7") (auto simp: bit_simps bit_single_int)
  then show ?thesis unfolding a by simp
qed

lemma KM_byte3_back:
  "(push_bit 2 (drop_bit 2 ((x :: u8) AND 0xFC)) AND 0xFC) OR (ucast (ucast (x AND 0x03) :: u64) AND 0x03) = x"
proof -
  have "2 \<le> n \<Longrightarrow> Suc (Suc (n - 2)) = n" for n by simp
  then show ?thesis
    unfolding KM_byte3_masks by (intro bit_word_eqI) (auto simp: bit_simps not_less)
qed

lemma KM_byte3_fit: "drop_bit 2 ((x :: u8) AND 0xFC) < 64"
proof -
  have "take_bit 6 (drop_bit 2 (x AND 0xFC)) = drop_bit 2 (x AND 0xFC)"
    unfolding KM_byte3_masks by (rule bit_word_eqI) (auto simp: bit_simps)
  then show ?thesis using word_less_exp_iff_take_bit [of 6 "drop_bit 2 (x AND 0xFC)"] by simp
qed

lemma KM_Unmarshal_head:
  assumes "CIFKeyMaterialExtension_Unmarshal c0 data = Inr c" and "length data \<noteq> 4"
  shows "16 \<le> length data" "data ! 0 = 0x12" "be16 data 1 = 0x2029" "be32 data 4 = 0" "data ! 10 = 2"
    "PacketEncryption_IsValid (ucast ((data ! 3) AND 0x03))" "ucast ((data ! 3) AND 0x03) \<noteq> (0 :: u64)"
    "KM_Unmarshal_tail
       (c0\<lparr>kmS := 0, kmVersion := 1, kmPacketType := 2, kmSign := 0x2029,
          kmResv1 := drop_bit 2 ((data ! 3) AND 0xFC), KeyBasedEncryption := ucast ((data ! 3) AND 0x03),
          KeyEncryptionKeyIndex := 0, kmCipher := data ! 8, kmAuthentication := data ! 9,
          StreamEncapsulation := 2\<rparr>) data = Inr c"
  using assms u8_parts [of "data ! 0"]
  unfolding CIFKeyMaterialExtension_Unmarshal_def Let_def
  by (simp_all split: if_split_asm)


lemma quarter_of_fourfold: "ucast ((ucast (b :: u8) * 4 :: u16) div 4) = b"
proof -
  have "(ucast b * 4 :: u16) div 4 = drop_bit 2 (push_bit 2 (ucast b))"
    by (simp add: drop_bit_eq_div push_bit_eq_mult)
  then show ?thesis by (simp only:) (rule bit_word_eqI, auto simp: bit_simps)
qed

lemma KM_Unmarshal_tail_Inr:
  assumes "KM_Unmarshal_tail c1 data = Inr c" and "16 \<le> length data"
  defines "s \<equiv> (if SLen c \<noteq> 0 then 16 else 0)"
  shows "SLen c = ucast (data ! 14) * 4" "KLen c = ucast (data ! 15) * 4"
    "KLen c = 16 \<or> KLen c = 24 \<or> KLen c = 32" "SLen c = 0 \<or> SLen c = 16"
    "16 + s + wrap_length (KeyBasedEncryption c) (KLen c) \<le> length data"
    "c = c1\<lparr>kmResv2 := data ! 11, kmResv3 := be16 data 12, SLen := SLen c, KLen := KLen c,
       kmSalt := (if SLen c \<noteq> 0 then take 16 (drop 16 data) else kmSalt c1),
       kmWrap := take (wrap_length (KeyBasedEncryption c) (KLen c)) (drop (16 + s) data)\<rparr>"
  using assms(1,2) unfolding KM_Unmarshal_tail_def Let_def s_def
  by (auto split: if_split_asm)

lemma KM_Unmarshal_canonical:
  assumes "CIFKeyMaterialExtension_Unmarshal c0 data = Inr c" and "length data \<noteq> 4"
  shows "valid_KM c \<and> KM_head c @ (if SLen c \<noteq> 0 then kmSalt c else []) @ kmWrap c =
     take (16 + unat (SLen c) + wrap_length (KeyBasedEncryption c) (KLen c)) data"
proof -
  note h = KM_Unmarshal_head [OF assms]
  note t = KM_Unmarshal_tail_Inr [OF h(8,1)]
  have fields: "kmS c = 0" "kmVersion c = 1" "kmPacketType c = 2" "kmSign c = 0x2029"
    "kmResv1 c = drop_bit 2 ((data ! 3) AND 0xFC)" "KeyBasedEncryption c = ucast ((data ! 3) AND 0x03)"
    "KeyEncryptionKeyIndex c = 0" "kmCipher c = data ! 8" "kmAuthentication c = data ! 9"
    "StreamEncapsulation c = 2" "kmResv2 c = data ! 11" "kmResv3 c = be16 data 12"
    "SLen c \<noteq> 0 \<Longrightarrow> kmSalt c = take 16 (drop 16 data)"
    "kmWrap c = take (wrap_length (KeyBasedEncryption c) (KLen c))
       (drop (16 + (if SLen c \<noteq> 0 then 16 else 0)) data)"
    by (subst t(6), simp)+
  have "valid_KM c"
    using h t(3-5) KM_byte3_fit [of "data ! 3"] by (auto simp: valid_KM_def fields(1-12) fields(13,14))
  moreover have "KM_head c = take 16 data"
  proof -
    have "[data ! 1, data ! 2] = put16 0x2029" "[data ! 4, data ! 5, data ! 6, data ! 7] = put32 0"
      using put16_be16 [of 1 data] put32_be32 [of data 4] h(1,3,4)
      by (simp_all add: numeral_2_eq_2)
    then show ?thesis
      unfolding KM_head_def fields(1-12) KM_byte3_back t(1,2) quarter_of_fourfold
      using h(1,2,5) put16_be16 [of 12 data]
      by (simp add: take_16 put16_def put32_def)
  qed
  ultimately show ?thesis
    using t(4) fields(13,14) by (auto simp: take_add)
qed


section \<open>ACK\<close>

record CIFACK =
  IsLite :: bool
  IsSmall :: bool
  LastACKPacketSequenceNumber :: Number
  ackRTT :: u32
  ackRTTVar :: u32
  AvailableBufferSize :: u32
  PacketsReceivingRate :: u32
  EstimatedLinkCapacity :: u32
  ReceivingRate :: u32

definition seq_at :: "bytes \<Rightarrow> nat \<Rightarrow> Number" where
  "seq_at data i = Number_New (be32 data i AND MAX_SEQUENCENUMBER) MAX_SEQUENCENUMBER"

definition CIFACK_Unmarshal :: "CIFACK \<Rightarrow> bytes \<Rightarrow> (packet_error, CIFACK) result" where
  "CIFACK_Unmarshal c data =
     (let c = c\<lparr>IsLite := False, IsSmall := False\<rparr> in
      if length data = 4 then
        Inr (c\<lparr>IsLite := True, LastACKPacketSequenceNumber := seq_at data 0\<rparr>)
      else if length data = 16 then
        Inr (c\<lparr>IsSmall := True, LastACKPacketSequenceNumber := seq_at data 0,
               ackRTT := be32 data 4, ackRTTVar := be32 data 8, AvailableBufferSize := be32 data 12\<rparr>)
      else if length data < 28 then Inl (Err DataTooShort)
      else
        Inr (c\<lparr>LastACKPacketSequenceNumber := seq_at data 0,
               ackRTT := be32 data 4, ackRTTVar := be32 data 8, AvailableBufferSize := be32 data 12,
               PacketsReceivingRate := be32 data 16, EstimatedLinkCapacity := be32 data 20,
               ReceivingRate := be32 data 24\<rparr>))"

definition CIFACK_Marshal :: "CIFACK \<Rightarrow> bytes option \<Rightarrow> (packet_error, bytes) result" where
  "CIFACK_Marshal c w =
     (case w of
        None \<Rightarrow> Inl (Err InvalidWriter)
      | Some out \<Rightarrow>
          (let buffer = put32 (Number_Val (LastACKPacketSequenceNumber c)) @ put32 (ackRTT c)
                 @ put32 (ackRTTVar c) @ put32 (AvailableBufferSize c) @ put32 (PacketsReceivingRate c)
                 @ put32 (EstimatedLinkCapacity c) @ put32 (ReceivingRate c)
           in if IsLite c then Inr (out @ take 4 buffer)
              else if IsSmall c then Inr (out @ take 16 buffer)
              else Inr (out @ buffer)))"

text \<open>Sequence numbers as the protocol has them: 31 bits, maximum \<open>MAX_SEQUENCENUMBER\<close>.\<close>

definition wf_seq :: "Number \<Rightarrow> bool" where
  "wf_seq n \<longleftrightarrow> wf_Number n \<and> nmax n = MAX_SEQUENCENUMBER"

definition valid_ACK :: "CIFACK \<Rightarrow> bool" where
  "valid_ACK c \<longleftrightarrow> wf_seq (LastACKPacketSequenceNumber c) \<and> \<not> (IsLite c \<and> IsSmall c)"

definition merge_ACK :: "CIFACK \<Rightarrow> CIFACK \<Rightarrow> CIFACK" where
  "merge_ACK c c0 =
     (if IsLite c then
        c0\<lparr>IsLite := True, IsSmall := False, LastACKPacketSequenceNumber := LastACKPacketSequenceNumber c\<rparr>
      else if IsSmall c then
        c\<lparr>PacketsReceivingRate := PacketsReceivingRate c0,
          EstimatedLinkCapacity := EstimatedLinkCapacity c0, ReceivingRate := ReceivingRate c0\<rparr>
      else c)"

lemma MAX_SEQUENCENUMBER_mask: "(0x7FFFFFFF :: u32) = mask 31"
  by (simp add: mask_eq_exp_minus_1)

lemma wf_seq_masked:
  assumes "wf_seq n"
  shows "Number_New (nvalue n AND MAX_SEQUENCENUMBER) MAX_SEQUENCENUMBER = n"
proof -
  have le: "nvalue n < 2 ^ 31"
    using assms by (auto simp: wf_seq_def wf_Number_def word_le_nat_alt word_less_nat_alt)
  then have "nvalue n AND MAX_SEQUENCENUMBER = nvalue n"
    using word_less_exp_iff_take_bit [of 31 "nvalue n"]
    by (simp add: MAX_SEQUENCENUMBER_mask flip: take_bit_eq_mask)
  then show ?thesis
    using assms Number_New_val_id [of n MAX_SEQUENCENUMBER] by (simp add: wf_seq_def Number_Val_def)
qed

lemma seq_at_put32 [codec]: "wf_seq n \<Longrightarrow> seq_at (put32 (Number_Val n) @ ys) 0 = n"
  "wf_seq n \<Longrightarrow> seq_at (put32 (Number_Val n)) 0 = n"
  using wf_seq_masked [of n] by (simp_all add: seq_at_def codec Number_Val_def)

interpretation ack: cif_codec CIFACK_Marshal CIFACK_Unmarshal valid_ACK merge_ACK
  by unfold_locales
    (auto simp: CIFACK_Marshal_def CIFACK_Unmarshal_def valid_ACK_def merge_ACK_def codec Let_def)

section \<open>Shutdown\<close>

text \<open>\<open>CIFShutdown\<close> is the empty struct.\<close>

definition CIFShutdown_Unmarshal :: "unit \<Rightarrow> bytes \<Rightarrow> (packet_error, unit) result" where
  "CIFShutdown_Unmarshal c data =
     (if length data \<noteq> 0 \<and> length data \<noteq> 4 then Inl (Err InvalidShutdownLength) else Inr c)"

definition CIFShutdown_Marshal :: "unit \<Rightarrow> bytes option \<Rightarrow> (packet_error, bytes) result" where
  "CIFShutdown_Marshal c w =
     (case w of None \<Rightarrow> Inl (Err InvalidWriter) | Some out \<Rightarrow> Inr (out @ put32 0))"

interpretation shutdown: cif_codec CIFShutdown_Marshal CIFShutdown_Unmarshal "\<lambda>_. True" "\<lambda>c c0. c"
  by unfold_locales (auto simp: CIFShutdown_Marshal_def CIFShutdown_Unmarshal_def)

section \<open>NAK\<close>

record CIFNAK =
  LostPacketSequenceNumber :: "Number list"

text \<open>The loop over the 32-bit words of the list; \<open>Unmarshal\<close> has checked that they are complete.\<close>

fun CIFNAK_loop :: "bytes \<Rightarrow> bool \<Rightarrow> Number list \<Rightarrow> Number list" where
  "CIFNAK_loop (b0 # b1 # b2 # b3 # data) isRange l =
     (let sequenceNumber = seq_at [b0, b1, b2, b3] 0 in
      if b0 AND 0x80 = 0 then
        let l = l @ [sequenceNumber]; l = (if \<not> isRange then l @ [sequenceNumber] else l)
        in CIFNAK_loop data False l
      else CIFNAK_loop data True (l @ [sequenceNumber]))"
| "CIFNAK_loop _ isRange l = l"

definition CIFNAK_Unmarshal :: "CIFNAK \<Rightarrow> bytes \<Rightarrow> (packet_error, CIFNAK) result" where
  "CIFNAK_Unmarshal c data =
     (if length data mod 4 \<noteq> 0 then Inl (Err DataWrongLength)
      else
        let l = CIFNAK_loop data False [] in
        if length l mod 2 \<noteq> 0 then Inl (Err DataTooShort)
        else Inr (c\<lparr>LostPacketSequenceNumber := sort_Slice Number_Lt l\<rparr>))"

fun CIFNAK_write :: "Number list \<Rightarrow> nat \<Rightarrow> bytes" where
  "CIFNAK_write (a # b # l) bytesWritten =
     (let (buffer, bytesWritten) =
        (if a = b then (put32 (Number_Val a), bytesWritten + 4)
         else (put32 (Number_Val a OR 0x80000000) @ put32 (Number_Val b), bytesWritten + 8))
      in buffer @ (if bytesWritten \<ge> MAX_PAYLOAD_SIZE - 4 then [] else CIFNAK_write l bytesWritten))"
| "CIFNAK_write _ bytesWritten = []"

definition CIFNAK_Marshal :: "CIFNAK \<Rightarrow> bytes option \<Rightarrow> (packet_error, bytes) result" where
  "CIFNAK_Marshal c w =
     (case w of
        None \<Rightarrow> Inl (Err InvalidWriter)
      | Some out \<Rightarrow>
          (if length (LostPacketSequenceNumber c) mod 2 \<noteq> 0 then Inl (Err InvalidLossList)
           else Inr (out @ CIFNAK_write (LostPacketSequenceNumber c) 0)))"

text \<open>
  A loss list is a sequence of first and last numbers of lost ranges, in ascending order inside one
  window of the circular numbers.
\<close>

definition valid_loss_list :: "Number \<Rightarrow> Number list \<Rightarrow> bool" where
  "valid_loss_list base l \<longleftrightarrow> even (length l) \<and> (\<forall>n \<in> set l. in_window base n)
     \<and> nmax base = MAX_SEQUENCENUMBER \<and> sorted_wrt (\<lambda>a b. off base a \<le> off base b) l"

lemma length_CIFNAK_write:
  "4 dvd n \<Longrightarrow> n < MAX_PAYLOAD_SIZE - 4 \<Longrightarrow> n + length (CIFNAK_write l n) \<le> MAX_PAYLOAD_SIZE
     \<and> 4 dvd length (CIFNAK_write l n)"
proof (induction l n rule: CIFNAK_write.induct)
  case (1 a b l n)
  have "4 dvd n + 4" "4 dvd n + 8" "n \<le> 1448"
    using 1(2,3) by (simp_all; presburger)+
  then show ?case using 1 by (cases "a = b") (auto simp: Let_def not_le)
qed auto

lemma CIFNAK_loop_put32: "CIFNAK_loop (put32 x @ data) isRange l =
   (if bit x 31 then CIFNAK_loop data True (l @ [seq_at (put32 x) 0])
    else CIFNAK_loop data False (l @ seq_at (put32 x) 0 # (if isRange then [] else [seq_at (put32 x) 0])))"
proof -
  have "(ucast (drop_bit 24 x) :: u8) AND 0x80 = 0 \<longleftrightarrow> \<not> bit x 31"
    using u8_and_masks(1) [of "ucast (drop_bit 24 x)"] by (auto simp: bit_ucast_iff bit_drop_bit_eq)
  then show ?thesis by (simp add: put32_def Let_def)
qed

lemma wf_seq_bit: "wf_seq a \<Longrightarrow> \<not> bit (Number_Val a) 31"
  using word_less_exp_bit [of "nvalue a" 31 31]
  by (auto simp: wf_seq_def wf_Number_def Number_Val_def word_le_nat_alt word_less_nat_alt)

lemma seq_at_flagged: "wf_seq a \<Longrightarrow> seq_at (put32 (Number_Val a OR 0x80000000)) 0 = a"
proof -
  assume a: "wf_seq a"
  have "(nvalue a OR push_bit 31 1) AND mask 31 = nvalue a AND mask 31"
    by (rule bit_word_eqI) (simp only: bit_and_iff bit_or_iff bit_push_bit_iff bit_mask_iff, auto)
  then show ?thesis
    using wf_seq_masked [OF a]
    by (simp add: seq_at_def codec Number_Val_def MAX_SEQUENCENUMBER_mask)
qed

lemma CIFNAK_loop_single: "wf_seq a \<Longrightarrow>
   CIFNAK_loop (put32 (Number_Val a) @ data) False l = CIFNAK_loop data False (l @ [a, a])"
  by (simp add: CIFNAK_loop_put32 wf_seq_bit seq_at_put32)

lemma CIFNAK_loop_range: "wf_seq a \<Longrightarrow> wf_seq b \<Longrightarrow>
   CIFNAK_loop (put32 (Number_Val a OR 0x80000000) @ put32 (Number_Val b) @ data) False l
     = CIFNAK_loop data False (l @ [a, b])"
  by (simp add: CIFNAK_loop_put32 [of "Number_Val a OR 0x80000000"] CIFNAK_loop_put32 [of "Number_Val b"]
      bit_or_iff wf_seq_bit seq_at_put32 seq_at_flagged)

lemma CIFNAK_loop_write:
  assumes "\<forall>a \<in> set l. wf_seq a" and "even (length l)"
  shows "\<exists>k. even k \<and> k \<le> length l \<and> (k = length l \<or> MAX_PAYLOAD_SIZE - 4 \<le> n + 4 * k)
    \<and> CIFNAK_loop (CIFNAK_write l n) False acc = acc @ take k l"
  using assms
proof (induction l arbitrary: n acc rule: induct_list012)
  case (3 a b l)
  let ?n = "if a = b then n + 4 else n + 8"
  have step: "CIFNAK_loop (CIFNAK_write (a # b # l) n) False acc =
      CIFNAK_loop (if ?n \<ge> MAX_PAYLOAD_SIZE - 4 then [] else CIFNAK_write l ?n) False (acc @ [a, b])"
    using 3(3) CIFNAK_loop_single [of a] CIFNAK_loop_range [of a b]
      CIFNAK_loop_single [of a "[]"] CIFNAK_loop_range [of a b "[]"] by (auto simp: Let_def)
  show ?case
  proof (cases "?n \<ge> MAX_PAYLOAD_SIZE - 4")
    case True
    then show ?thesis unfolding step by (intro exI [of _ 2]) (auto split: if_splits)
  next
    case False
    then obtain k where k: "even k" "k \<le> length l" "k = length l \<or> MAX_PAYLOAD_SIZE - 4 \<le> ?n + 4 * k"
      "CIFNAK_loop (CIFNAK_write l ?n) False (acc @ [a, b]) = (acc @ [a, b]) @ take k l"
      using 3(1) [of ?n "acc @ [a, b]"] 3(3,4) by auto
    then show ?thesis unfolding step using False
      by (intro exI [of _ "Suc (Suc k)"]) (auto split: if_splits)
  qed
qed auto

lemma valid_loss_list_wf: "valid_loss_list base l \<Longrightarrow> n \<in> set l \<Longrightarrow> wf_seq n"
  by (auto simp: valid_loss_list_def in_window_def wf_seq_def same_domain_def)

lemma sort_loss_list:
  assumes "valid_loss_list base l"
  shows "sort_Slice Number_Lt (take k l) = take k l"
proof (rule sort_Slice_id [where key = "off base"])
  show "Number_Lt x y \<longleftrightarrow> off base x < off base y" if "x \<in> set (take k l)" "y \<in> set (take k l)" for x y
    using that assms by (auto simp: valid_loss_list_def intro!: Lt_window dest: in_set_takeD)
  show "sorted_wrt (\<lambda>a b. off base a \<le> off base b) (take k l)"
    using assms sorted_wrt_take_drop by (auto simp: valid_loss_list_def)
qed

lemma CIFNAK_truncated_round_trip:
  assumes "valid_loss_list base (LostPacketSequenceNumber c)"
  obtains k where "even k" "k \<le> length (LostPacketSequenceNumber c)"
    "k = length (LostPacketSequenceNumber c) \<or> 364 \<le> k"
    "CIFNAK_Unmarshal c0 (CIFNAK_write (LostPacketSequenceNumber c) 0) =
       Inr (c0\<lparr>LostPacketSequenceNumber := take k (LostPacketSequenceNumber c)\<rparr>)"
proof -
  let ?l = "LostPacketSequenceNumber c"
  obtain k where k: "even k" "k \<le> length ?l" "k = length ?l \<or> MAX_PAYLOAD_SIZE - 4 \<le> 0 + 4 * k"
    "CIFNAK_loop (CIFNAK_write ?l 0) False [] = take k ?l"
    using CIFNAK_loop_write [of ?l 0 "[]"] assms valid_loss_list_wf [OF assms]
    by (auto simp: valid_loss_list_def)
  have "CIFNAK_Unmarshal c0 (CIFNAK_write ?l 0) = Inr (c0\<lparr>LostPacketSequenceNumber := take k ?l\<rparr>)"
    using k length_CIFNAK_write [of 0 ?l] sort_loss_list [OF assms, of k]
    by (auto simp: CIFNAK_Unmarshal_def Let_def mod_eq_0_iff_dvd)
  moreover have "k = length ?l \<or> 364 \<le> k" using k(1,3) by auto
  ultimately show thesis using that k by blast
qed

definition valid_NAK :: "CIFNAK \<Rightarrow> bool" where
  "valid_NAK c \<longleftrightarrow> length (LostPacketSequenceNumber c) \<le> 364
     \<and> (\<exists>base. valid_loss_list base (LostPacketSequenceNumber c))"

interpretation nak: cif_codec CIFNAK_Marshal CIFNAK_Unmarshal valid_NAK "\<lambda>c c0. c"
proof
  fix c c0 w assume "valid_NAK c"
  then obtain base where b: "valid_loss_list base (LostPacketSequenceNumber c)"
    and len: "length (LostPacketSequenceNumber c) \<le> 364" by (auto simp: valid_NAK_def)
  obtain k where "k \<le> length (LostPacketSequenceNumber c)"
    "k = length (LostPacketSequenceNumber c) \<or> 364 \<le> k"
    and k: "CIFNAK_Unmarshal c0 (CIFNAK_write (LostPacketSequenceNumber c) 0) =
       Inr (c0\<lparr>LostPacketSequenceNumber := take k (LostPacketSequenceNumber c)\<rparr>)"
    using CIFNAK_truncated_round_trip [OF b] .
  with len have "k = length (LostPacketSequenceNumber c)" by linarith
  with k have "CIFNAK_Unmarshal c0 (CIFNAK_write (LostPacketSequenceNumber c) 0) = Inr c" by simp
  with b show "\<exists>bs. CIFNAK_Marshal c (Some w) = Inr (w @ bs) \<and> CIFNAK_Unmarshal c0 bs = Inr c"
    by (intro exI [of _ "CIFNAK_write (LostPacketSequenceNumber c) 0"])
      (simp add: CIFNAK_Marshal_def valid_loss_list_def even_iff_mod_2_eq_zero)
qed (simp add: CIFNAK_Marshal_def)

lemma wf_seq_New [simp]: "wf_seq (Number_New x 0x7FFFFFFF)"
  using wf_New [of x "0x7FFFFFFF"] unat_lt_u32 [of x] by (simp add: wf_seq_def)

lemma wf_seq_at [simp]: "wf_seq (seq_at data i)"
  by (simp add: seq_at_def)

lemma CIFNAK_loop_wf: "\<forall>n \<in> set l. wf_seq n \<Longrightarrow> \<forall>n \<in> set (CIFNAK_loop data isRange l). wf_seq n"
proof (induction data isRange l rule: CIFNAK_loop.induct)
  case (1 b0 b1 b2 b3 data isRange l)
  show ?case
  proof (cases "b0 AND 0x80 = 0")
    case True
    show ?thesis unfolding CIFNAK_loop.simps Let_def if_P [OF True]
      by (rule 1(1) [OF refl True refl refl]) (use 1(3) in simp)
  next
    case False
    show ?thesis unfolding CIFNAK_loop.simps Let_def if_not_P [OF False]
      by (rule 1(2) [OF refl False]) (use 1(3) in simp)
  qed
qed simp_all

lemma CIFNAK_Unmarshal_wf:
  assumes "CIFNAK_Unmarshal c data = Inr c'"
  shows "even (length (LostPacketSequenceNumber c')) \<and> (\<forall>n \<in> set (LostPacketSequenceNumber c'). wf_seq n)"
proof -
  let ?l = "CIFNAK_loop data False []"
  have "even (length ?l)" "LostPacketSequenceNumber c' = sort_Slice Number_Lt ?l"
    using assms by (auto simp: CIFNAK_Unmarshal_def Let_def even_iff_mod_2_eq_zero split: if_splits)
  then show ?thesis
    using CIFNAK_loop_wf [of "[]" data False] mset_sort_Slice [of Number_Lt ?l]
    by (metis list.set(1) ball_empty set_mset_mset size_mset)
qed

section \<open>Properties\<close>

text \<open>
  C33. A key material message is accepted only in canonical form: whenever \<open>Unmarshal\<close> accepts a
  message that is not the four-byte error response, the value satisfies every constraint of the format,
  the message is at least as long as its length fields announce, and marshalling the value writes
  exactly the announced part of the message again.
\<close>

theorem KM_accepted_canonical:
  assumes "CIFKeyMaterialExtension_Unmarshal c0 data = Inr c" and "length data \<noteq> 4"
  shows "valid_KM c
    \<and> 16 + unat (SLen c) + wrap_length (KeyBasedEncryption c) (KLen c) \<le> length data
    \<and> CIFKeyMaterialExtension_Marshal c (Some w) =
        Inr (w @ take (16 + unat (SLen c) + wrap_length (KeyBasedEncryption c) (KLen c)) data)"
proof -
  note canon = KM_Unmarshal_canonical [OF assms]
  have "wrap_length (KeyBasedEncryption c) (KLen c) \<le> 72" "SLen c = 0 \<or> SLen c = 16"
    using canon by (auto simp: valid_KM_def wrap_length_def)
  moreover have "16 + unat (SLen c) + wrap_length (KeyBasedEncryption c) (KLen c) \<le> length data"
    using KM_Unmarshal_tail_Inr(4,5) [OF KM_Unmarshal_head(8,1) [OF assms]] by (auto split: if_splits)
  ultimately show ?thesis
    using canon unfolding CIFKeyMaterialExtension_Marshal_def by (auto simp: Let_def valid_KM_def)
qed

definition km_message :: bytes where
  "km_message = [0x12, 0x20, 0x29, 1, 0, 0, 0, 0, 2, 0, 2, 0, 0, 0, 4, 4] @ replicate 16 7 @ replicate 24 9"

definition km_value :: CIFKeyMaterialExtension where
  "km_value = zero_KM\<lparr>kmVersion := 1, kmPacketType := 2, kmSign := 0x2029, KeyBasedEncryption := 1,
     kmCipher := 2, StreamEncapsulation := 2, SLen := 16, KLen := 16,
     kmSalt := replicate 16 7, kmWrap := replicate 24 9\<rparr>"

theorem KM_accepted_canonical_witness:
  "CIFKeyMaterialExtension_Marshal km_value (Some []) = Inr (take 56 km_message)"
proof -
  have "CIFKeyMaterialExtension_Unmarshal zero_KM km_message = Inr km_value" by code_simp
  then show ?thesis
    using KM_accepted_canonical [of zero_KM km_message km_value "[]"]
    by (simp add: km_message_def km_value_def wrap_length_def)
qed

text \<open>
  C34. Key material of the announced format survives the wire: written as the control information field of
  a control packet, marshalled, received and read into any variable it comes back with every field that
  travels (the error field does not, and a salt of length zero leaves the variable's salt alone).
\<close>

theorem KM_over_the_wire:
  assumes "valid_KM c" and "IsControlPacket (header p)" and "ControlType (header p) < 0x8000"
    and "commissioned p"
  shows "\<exists>p' bs q. pkt_MarshalCIF p (CIFKeyMaterialExtension_Marshal c) = (None, p')
    \<and> pkt_Marshal p' (Some []) = Inr bs \<and> NewPacketFromData addr bs = Inr q
    \<and> header q = received_header (header p) (header (NewPacket addr))
    \<and> pkt_UnmarshalCIF q CIFKeyMaterialExtension_Unmarshal c0 = Inr (merge_KM c c0)"
  by (rule km.wire_round_trip [OF assms])

definition control_packet :: pkt where
  "control_packet = NewPacket None \<lparr>header := (header (NewPacket None))\<lparr>IsControlPacket := True,
     ControlType := CTRLTYPE_USER, SubType := EXTTYPE_KMREQ\<rparr>\<rparr>"

theorem KM_over_the_wire_witness:
  "\<exists>p' bs q. pkt_MarshalCIF control_packet (CIFKeyMaterialExtension_Marshal km_value) = (None, p')
    \<and> pkt_Marshal p' (Some []) = Inr bs \<and> NewPacketFromData None bs = Inr q
    \<and> header q = received_header (header control_packet) (header (NewPacket None))
    \<and> pkt_UnmarshalCIF q CIFKeyMaterialExtension_Unmarshal zero_KM = Inr km_value"
proof -
  have "valid_KM km_value" "merge_KM km_value zero_KM = km_value" by code_simp+
  then show ?thesis
    using KM_over_the_wire [of km_value control_packet None zero_KM]
    by (simp add: control_packet_def NewPacket_def commissioned_def)
qed

text \<open>
  C35. Loss reports fit one packet and lose only what does not fit: for a list of ranges in ascending order
  inside a window of the sequence numbers, \<open>Marshal\<close> writes at most the maximum payload, and
  \<open>Unmarshal\<close> of what was written is the same list cut off at a range boundary, the whole list
  unless it has more than 364 entries (182 ranges).
\<close>

theorem NAK_truncated_round_trip:
  assumes "valid_loss_list base (LostPacketSequenceNumber c)"
  shows "\<exists>bs k. CIFNAK_Marshal c (Some w) = Inr (w @ bs) \<and> length bs \<le> MAX_PAYLOAD_SIZE
    \<and> even k \<and> k \<le> length (LostPacketSequenceNumber c)
    \<and> (length (LostPacketSequenceNumber c) \<le> 364 \<longrightarrow> k = length (LostPacketSequenceNumber c))
    \<and> (364 < length (LostPacketSequenceNumber c) \<longrightarrow> 364 \<le> k)
    \<and> CIFNAK_Unmarshal c0 bs =
        Inr (c0\<lparr>LostPacketSequenceNumber := take k (LostPacketSequenceNumber c)\<rparr>)"
proof -
  let ?l = "LostPacketSequenceNumber c"
  obtain k where k: "even k" "k \<le> length ?l" "k = length ?l \<or> 364 \<le> k"
    "CIFNAK_Unmarshal c0 (CIFNAK_write ?l 0) = Inr (c0\<lparr>LostPacketSequenceNumber := take k ?l\<rparr>)"
    using CIFNAK_truncated_round_trip [OF assms] .
  moreover have "CIFNAK_Marshal c (Some w) = Inr (w @ CIFNAK_write ?l 0)"
    using assms by (simp add: CIFNAK_Marshal_def valid_loss_list_def even_iff_mod_2_eq_zero)
  moreover have "length (CIFNAK_write ?l 0) \<le> MAX_PAYLOAD_SIZE"
    using length_CIFNAK_write [of 0 ?l] by simp
  ultimately show ?thesis
    by (intro exI [of _ "CIFNAK_write ?l 0"] exI [of _ k]) auto
qed

theorem NAK_truncated_round_trip_witness:
  "\<exists>bs. CIFNAK_Marshal \<lparr>LostPacketSequenceNumber = map (\<lambda>n. Number_New n MAX_SEQUENCENUMBER)
       [0x7FFFFFFE, 0x7FFFFFFE, 0x7FFFFFFF, 5]\<rparr> (Some []) = Inr bs
    \<and> CIFNAK_Unmarshal \<lparr>LostPacketSequenceNumber = []\<rparr> bs =
       Inr \<lparr>LostPacketSequenceNumber = map (\<lambda>n. Number_New n MAX_SEQUENCENUMBER)
         [0x7FFFFFFE, 0x7FFFFFFE, 0x7FFFFFFF, 5]\<rparr>"
proof -
  let ?l = "map (\<lambda>n. Number_New n MAX_SEQUENCENUMBER) [0x7FFFFFFE, 0x7FFFFFFE, 0x7FFFFFFF, 5]"
  have "valid_loss_list (Number_New 0x7FFFFFFE MAX_SEQUENCENUMBER) ?l"
    by (simp add: valid_loss_list_def in_window_def wf_Number_def same_domain_def off_def offn_def
        modulus_def Number_New_def)
  then show ?thesis
    using NAK_truncated_round_trip [of _ "\<lparr>LostPacketSequenceNumber = ?l\<rparr>" "[]"
        "\<lparr>LostPacketSequenceNumber = []\<rparr>"]
    by fastforce
qed

text \<open>
  C36. An acknowledgement in any of its three forms survives the wire: the light form carries the sequence
  number only, the small form the round trip times and the buffer size as well, the full form everything.
\<close>

theorem ACK_over_the_wire:
  assumes "valid_ACK c" and "IsControlPacket (header p)" and "ControlType (header p) < 0x8000"
    and "commissioned p"
  shows "\<exists>p' bs q. pkt_MarshalCIF p (CIFACK_Marshal c) = (None, p')
    \<and> pkt_Marshal p' (Some []) = Inr bs \<and> NewPacketFromData addr bs = Inr q
    \<and> header q = received_header (header p) (header (NewPacket addr))
    \<and> pkt_UnmarshalCIF q CIFACK_Unmarshal c0 = Inr (merge_ACK c c0)"
  by (rule ack.wire_round_trip [OF assms])

definition small_ack :: CIFACK where
  "small_ack = \<lparr>IsLite = False, IsSmall = True,
     LastACKPacketSequenceNumber = Number_New 42 MAX_SEQUENCENUMBER, ackRTT = 100000, ackRTTVar = 50000,
     AvailableBufferSize = 25600, PacketsReceivingRate = 0, EstimatedLinkCapacity = 0, ReceivingRate = 0\<rparr>"

theorem ACK_over_the_wire_witness:
  "\<exists>p' bs q. pkt_MarshalCIF control_packet (CIFACK_Marshal small_ack) = (None, p')
    \<and> pkt_Marshal p' (Some []) = Inr bs \<and> NewPacketFromData None bs = Inr q
    \<and> header q = received_header (header control_packet) (header (NewPacket None))
    \<and> pkt_UnmarshalCIF q CIFACK_Unmarshal small_ack = Inr small_ack"
proof -
  have "valid_ACK small_ack" "merge_ACK small_ack small_ack = small_ack" by code_simp+
  then show ?thesis
    using ACK_over_the_wire [of small_ack control_packet None small_ack]
    by (simp add: control_packet_def NewPacket_def commissioned_def)
qed

end
