(* ===== verification/Net_IP.thy ===== *)
theory Net_IP
  imports Packet
begin

text \<open>
  The peer address of the handshake (\<^verbatim>\<open>net/ip.go\<close>) and the functions of Go's \<^verbatim>\<open>net\<close> package it
  uses: \<open>ParseIP\<close>, \<open>IPv4\<close>, \<open>To4\<close>, \<open>Equal\<close> and \<open>IsUnspecified\<close>.

  A \<^verbatim>\<open>net.IP\<close> is a byte slice of 4 or 16 bytes, or nil (\<open>None\<close>). The round trip theorem covers every
  valid address and shows which IPv6 addresses the four-word encoding cannot represent.
\<close>

section \<open>Go's net package\<close>

type_synonym go_ip = "bytes option"

definition v4InV6Prefix :: bytes where
  "v4InV6Prefix = [0, 0, 0, 0, 0, 0, 0, 0, 0, 0, 0xff, 0xff]"

definition net_IPv4 :: "u8 \<Rightarrow> u8 \<Rightarrow> u8 \<Rightarrow> u8 \<Rightarrow> bytes" where
  "net_IPv4 a b c d = v4InV6Prefix @ [a, b, c, d]"

definition net_To4 :: "bytes \<Rightarrow> bytes option" where
  "net_To4 ip =
     (if length ip = 4 then Some ip
      else if length ip = 16 \<and> take 12 ip = v4InV6Prefix then Some (drop 12 ip) else None)"

definition net_Equal :: "bytes \<Rightarrow> bytes \<Rightarrow> bool" where
  "net_Equal ip x \<longleftrightarrow>
     (if length ip = length x then ip = x
      else if length ip = 4 \<and> length x = 16 then take 12 x = v4InV6Prefix \<and> ip = drop 12 x
      else if length ip = 16 \<and> length x = 4 then take 12 ip = v4InV6Prefix \<and> drop 12 ip = x
      else False)"

definition net_IsUnspecified :: "bytes \<Rightarrow> bool" where
  "net_IsUnspecified ip \<longleftrightarrow> net_Equal ip (net_IPv4 0 0 0 0) \<or> net_Equal ip (replicate 16 0)"

text \<open>\<open>fmt\<close>'s \<^verbatim>\<open>%04x\<close> of a value below 65536.\<close>

definition hex_digit :: "nat \<Rightarrow> char" where
  "hex_digit n = (if n < 10 then char_of (48 + n) else char_of (87 + n))"

definition hex4 :: "u32 \<Rightarrow> string" where
  "hex4 x = map (\<lambda>k. hex_digit (unat (drop_bit k x AND 15))) [12, 8, 4, 0]"

definition hex_val :: "char \<Rightarrow> nat option" where
  "hex_val c =
     (let n = of_char c in
      if 48 \<le> n \<and> n \<le> 57 then Some (n - 48)
      else if 97 \<le> n \<and> n \<le> 102 then Some (n - 87)
      else if 65 \<le> n \<and> n \<le> 70 then Some (n - 55)
      else None)"

text \<open>
  \<open>ParseIP\<close> is \<^verbatim>\<open>netip.ParseAddr\<close> without zones. The IPv4 parser is at a field with value
  \<open>v\<close> read from \<open>dig\<close> digits; \<open>fs\<close> are the complete fields.
\<close>

fun parseIPv4 :: "string \<Rightarrow> nat \<Rightarrow> nat \<Rightarrow> bytes \<Rightarrow> bytes option" where
  "parseIPv4 [] v dig fs = (if length fs < 3 then None else Some (fs @ [of_nat v]))"
| "parseIPv4 (c # s) v dig fs =
     (let n = of_char c in
      if 48 \<le> n \<and> n \<le> 57 then
        (if dig = 1 \<and> v = 0 then None
         else let v = v * 10 + (n - 48) in if v > 255 then None else parseIPv4 s v (dig + 1) fs)
      else if c = CHR ''.'' then
        (if dig = 0 \<or> s = [] then None
         else if length fs = 3 then None
         else parseIPv4 s 0 0 (fs @ [of_nat v]))
      else None)"

definition finishIPv6 :: "string \<Rightarrow> bytes \<Rightarrow> nat option \<Rightarrow> bytes option" where
  "finishIPv6 s ip ellipsis =
     (if s \<noteq> [] then None
      else if length ip < 16 then
        (case ellipsis of None \<Rightarrow> None
         | Some e \<Rightarrow> Some (take e ip @ replicate (16 - length ip) 0 @ drop e ip))
      else if ellipsis \<noteq> None then None else Some ip)"

definition hex_prefix :: "string \<Rightarrow> string" where
  "hex_prefix s = takeWhile (\<lambda>c. hex_val c \<noteq> None) s"

definition hex_number :: "string \<Rightarrow> nat" where
  "hex_number ds = fold (\<lambda>c acc. acc * 16 + the (hex_val c)) ds 0"

lemma length_drop_hex_prefix:
  "hex_prefix s \<noteq> [] \<Longrightarrow> length (drop (length (hex_prefix s)) s) < length s"
  by (cases s) (auto simp: hex_prefix_def)

function parseIPv6 :: "string \<Rightarrow> bytes \<Rightarrow> nat option \<Rightarrow> bytes option" where
  "parseIPv6 s ip ellipsis =
     (if length ip \<ge> 16 then finishIPv6 s ip ellipsis
      else
        let ds = hex_prefix s; rest = drop (length ds) s in
        if ds = [] then None
        else if length ds > 4 then None
        else if rest \<noteq> [] \<and> hd rest = CHR ''.'' then
          (if ellipsis = None \<and> length ip \<noteq> 12 then None
           else if length ip + 4 > 16 then None
           else case parseIPv4 s 0 0 [] of None \<Rightarrow> None | Some f \<Rightarrow> finishIPv6 [] (ip @ f) ellipsis)
        else
          let acc = hex_number ds; ip = ip @ [of_nat (acc div 256), of_nat acc] in
          if rest = [] then finishIPv6 [] ip ellipsis
          else if hd rest \<noteq> CHR '':'' then None
          else if length rest = 1 then None
          else if hd (tl rest) = CHR '':'' then
            (if ellipsis \<noteq> None then None
             else if tl (tl rest) = [] then finishIPv6 [] ip (Some (length ip))
             else parseIPv6 (tl (tl rest)) ip (Some (length ip)))
          else parseIPv6 (tl rest) ip ellipsis)"
  by pat_completeness auto

termination
proof (relation "measure (\<lambda>(s, _, _). length s)", goal_cases)
  case 1 show ?case by simp
qed (use length_drop_hex_prefix in \<open>fastforce simp: length_tl\<close>)+

declare parseIPv6.simps [simp del]

definition net_ParseIP :: "string \<Rightarrow> bytes option" where
  "net_ParseIP s =
     (if CHR ''%'' \<in> set s then None
      else case filter (\<lambda>c. c = CHR ''.'' \<or> c = CHR '':'') s of
        [] \<Rightarrow> None
      | c # _ \<Rightarrow>
          (if c = CHR ''.'' then map_option ((@) v4InV6Prefix) (parseIPv4 s 0 0 [])
           else if take 2 s = ''::'' then
             (if drop 2 s = [] then Some (replicate 16 0) else parseIPv6 (drop 2 s) [] (Some 0))
           else parseIPv6 s [] None))"

section \<open>The type IP\<close>

datatype net_error = InvalidNumberOfBytes | InvalidIP

definition IP_setDefault :: go_ip where
  "IP_setDefault = Some (net_IPv4 127 0 0 1)"

definition IP_isValid :: "go_ip \<Rightarrow> bool" where
  "IP_isValid i \<longleftrightarrow> (case i of None \<Rightarrow> False | Some ip \<Rightarrow> ip \<noteq> [] \<and> \<not> net_IsUnspecified ip)"

definition IP_Parse :: "string \<Rightarrow> go_ip" where
  "IP_Parse s =
     (case net_ParseIP s of
        None \<Rightarrow> IP_setDefault
      | Some ip \<Rightarrow> if \<not> IP_isValid (Some ip) then IP_setDefault else Some ip)"

text \<open>
  \<open>net.ResolveUDPAddr\<close> may ask the resolver of the host; it is a parameter that maps the printed
  address to the IP of the result (\<open>None\<close>: an error, \<open>Some None\<close>: a nil IP).
\<close>

definition IP_FromNetAddr :: "(string \<Rightarrow> go_ip option) \<Rightarrow> go_addr option \<Rightarrow> go_ip" where
  "IP_FromNetAddr resolveUDPAddr addr =
     (case addr of
        None \<Rightarrow> IP_setDefault
      | Some a \<Rightarrow>
          (if Network a \<noteq> ''udp'' then IP_setDefault
           else case resolveUDPAddr (AddrString a) of
                  Some (Some ip) \<Rightarrow> Some ip
                | _ \<Rightarrow> IP_setDefault))"

definition IPv4_of_word :: "u32 \<Rightarrow> bytes" where
  "IPv4_of_word w = net_IPv4 (ucast (drop_bit 24 (w AND 0xff000000))) (ucast (drop_bit 16 (w AND 0x00ff0000)))
     (ucast (drop_bit 8 (w AND 0x0000ff00))) (ucast (w AND 0x0000ff))"

definition IPv6_text :: "u32 \<Rightarrow> u32 \<Rightarrow> u32 \<Rightarrow> u32 \<Rightarrow> string" where
  "IPv6_text ip0 ip1 ip2 ip3 =
     hex4 (drop_bit 16 (ip0 AND 0xffff0000)) @ '':'' @ hex4 (ip0 AND 0x0000ffff) @ '':'' @
     hex4 (drop_bit 16 (ip1 AND 0xffff0000)) @ '':'' @ hex4 (ip1 AND 0x0000ffff) @ '':'' @
     hex4 (drop_bit 16 (ip2 AND 0xffff0000)) @ '':'' @ hex4 (ip2 AND 0x0000ffff) @ '':'' @
     hex4 (drop_bit 16 (ip3 AND 0xffff0000)) @ '':'' @ hex4 (ip3 AND 0x0000ffff)"

definition IP_Unmarshal :: "bytes \<Rightarrow> (net_error, go_ip) result" where
  "IP_Unmarshal data =
     (if length data \<noteq> 4 \<and> length data \<noteq> 16 then Inl (Err InvalidNumberOfBytes)
      else
        let r =
          (if length data = 4 then Some (IPv4_of_word (le32 data 0))
           else
             let ip3 = le32 data 0; ip2 = le32 data 4; ip1 = le32 data 8; ip0 = le32 data 12 in
             if ip0 = 0 \<and> ip1 = 0 \<and> ip2 = 0 then Some (IPv4_of_word ip3)
             else net_ParseIP (IPv6_text ip0 ip1 ip2 ip3))
        in case r of
             None \<Rightarrow> Inl (Err InvalidIP)
           | Some ip \<Rightarrow> Inr (if \<not> IP_isValid (Some ip) then IP_setDefault else Some ip))"

text \<open>
  \<open>Marshal\<close> returns the receiver as it leaves it (a default or the 16-byte form) and the slice. Reading
  \<^verbatim>\<open>i.ip[15]\<close> of a slice that is neither 4 nor 16 bytes long panics.
\<close>

definition IP_Marshal :: "go_ip \<Rightarrow> bytes \<Rightarrow> (net_error, go_ip \<times> bytes) result" where
  "IP_Marshal i data =
     (let i = (if i = None \<or> \<not> IP_isValid i then IP_setDefault else i);
          ip = the i;
          ip = (if length ip = 4 then net_IPv4 (ip ! 0) (ip ! 1) (ip ! 2) (ip ! 3) else ip)
      in if length data < 16 then Inr (Some ip, data)
         else if length ip < 16 then Inl Panic
         else
           let lo = [ip ! 15, ip ! 14, ip ! 13, ip ! 12];
               hi = (if net_To4 ip \<noteq> None then replicate 12 0
                     else [ip ! 11, ip ! 10, ip ! 9, ip ! 8, ip ! 7, ip ! 6, ip ! 5, ip ! 4,
                           ip ! 3, ip ! 2, ip ! 1, ip ! 0])
           in Inr (Some ip, lo @ hi @ drop 16 data))"

section \<open>Parsing a full IPv6 text\<close>

lemma hex_val_digit: "n < 16 \<Longrightarrow> hex_val (hex_digit n) = Some n"
  by (auto simp: hex_val_def hex_digit_def Let_def)

lemma hex_val_sep [simp]: "hex_val CHR '':'' = None" "hex_val CHR ''.'' = None" "hex_val CHR ''%'' = None"
  by (simp_all add: hex_val_def Let_def)

lemma nibble_lt [simp]: "unat ((x :: u32) AND 15) < 16"
proof -
  have "x AND 15 = take_bit 4 x" by (simp add: take_bit_eq_mask mask_eq_exp_minus_1)
  then show ?thesis using word_less_exp_iff_take_bit [of 4 "take_bit 4 x"] by (simp add: word_less_nat_alt)
qed

lemma hex_val_hex4: "c \<in> set (hex4 x) \<Longrightarrow> hex_val c \<noteq> None"
  by (auto simp: hex4_def hex_val_digit)

lemma length_hex4 [simp]: "length (hex4 x) = 4"
  by (simp add: hex4_def)

lemma hex_prefix_hex4: "s = [] \<or> hex_val (hd s) = None \<Longrightarrow> hex_prefix (hex4 x @ s) = hex4 x"
  unfolding hex_prefix_def using hex_val_hex4
  by (subst takeWhile_append2) (auto, cases s, auto)

lemma unat_nibble: "unat (drop_bit n (x :: u32) AND 15) = (unat x div 2 ^ n) mod 16"
proof -
  have "drop_bit n x AND 15 = take_bit 4 (drop_bit n x)"
    by (simp add: take_bit_eq_mask mask_eq_exp_minus_1)
  then have "unat (drop_bit n x AND 15) = take_bit 4 (drop_bit n (unat x))"
    using take_bit_nat_eq_self [of "unat x" 32] unat_lt_u32 [of x]
    by (simp add: unsigned_take_bit_eq unsigned_drop_bit_eq)
  then show ?thesis by (simp add: take_bit_eq_mod drop_bit_eq_div)
qed

lemma four_nibbles:
  "(n :: nat) < 65536 \<Longrightarrow> ((n div 4096 mod 16 * 16 + n div 256 mod 16) * 16 + n div 16 mod 16) * 16 + n mod 16 = n"
proof -
  assume n: "n < 65536"
  have d: "n div 4096 = n div 16 div 16 div 16" "n div 256 = n div 16 div 16" by (simp_all add: div_mult2_eq [symmetric])
  have "n div 16 div 16 div 16 < 16" using n by simp
  then show ?thesis unfolding d
    using div_mult_mod_eq [of n 16] div_mult_mod_eq [of "n div 16" 16] div_mult_mod_eq [of "n div 16 div 16" 16]
    by (simp only: mod_less)
qed

lemma hex_number_hex4:
  assumes "x < 0x10000"
  shows "hex_number (hex4 x) = unat x"
  using assms four_nibbles [of "unat x"] unat_nibble [of 12 x] unat_nibble [of 8 x] unat_nibble [of 4 x]
    unat_nibble [of 0 x]
  by (simp add: hex_number_def hex4_def hex_val_digit word_less_nat_alt)

lemma of_nat_bytes: "of_nat (unat (x :: u32)) = (ucast x :: u8)"
  "of_nat (unat x div 256) = (ucast (drop_bit 8 x) :: u8)"
proof -
  have "unat (drop_bit 8 x) = unat x div 256"
    using take_bit_nat_eq_self [of "unat x" 32] unat_lt_u32 [of x]
    by (simp add: unsigned_drop_bit_eq) (simp add: drop_bit_eq_div)
  then show "of_nat (unat x) = (ucast x :: u8)" "of_nat (unat x div 256) = (ucast (drop_bit 8 x) :: u8)"
    by (simp, metis of_nat_unat)
qed

lemma parseIPv6_group:
  assumes "x < 0x10000" and "length ip < 16" and "s \<noteq> []" and "hd s \<noteq> CHR '':''"
  shows "parseIPv6 (hex4 x @ CHR '':'' # s) ip None =
    parseIPv6 s (ip @ [ucast (drop_bit 8 x), ucast x]) None"
proof -
  have p: "hex_prefix (hex4 x @ CHR '':'' # s) = hex4 x" by (rule hex_prefix_hex4) simp
  have n: "hex4 x \<noteq> []" by (simp add: hex4_def)
  show ?thesis
    using assms n
    by (subst parseIPv6.simps) (simp add: Let_def p hex_number_hex4 of_nat_bytes)
qed

lemma parseIPv6_last:
  assumes "x < 0x10000" and "length ip = 14"
  shows "parseIPv6 (hex4 x) ip None = Some (ip @ [ucast (drop_bit 8 x), ucast x])"
proof -
  have p: "hex_prefix (hex4 x) = hex4 x" using hex_prefix_hex4 [of "[]" x] by simp
  have n: "hex4 x \<noteq> []" by (simp add: hex4_def)
  show ?thesis
    using assms n
    by (subst parseIPv6.simps) (simp add: Let_def p hex_number_hex4 of_nat_bytes finishIPv6_def)
qed

lemma hex4_nonempty: "hex4 x @ s \<noteq> []" "hd (hex4 x @ s) \<noteq> CHR '':''"
proof -
  have "hd (hex4 x @ s) \<in> set (hex4 x)" by (simp add: hex4_def)
  then show "hd (hex4 x @ s) \<noteq> CHR '':''" using hex_val_hex4 by fastforce
qed (simp add: hex4_def)

lemma halves_lt: "drop_bit 16 ((w :: u32) AND 0xffff0000) < 0x10000" "w AND 0xffff < 0x10000"
proof -
  have m: "(0xffff :: u32) = mask 16" "(0xffff0000 :: u32) = push_bit 16 (mask 16)"
    by (simp_all add: mask_eq_exp_minus_1)
  have "take_bit 16 (drop_bit 16 (w AND 0xffff0000)) = drop_bit 16 (w AND 0xffff0000)"
    unfolding m by (rule bit_word_eqI) (auto simp: bit_simps)
  then show "drop_bit 16 (w AND 0xffff0000) < 0x10000"
    using word_less_exp_iff_take_bit [of 16 "drop_bit 16 (w AND 0xffff0000)"] by simp
  show "w AND 0xffff < 0x10000"
    using word_less_exp_iff_take_bit [of 16 "take_bit 16 w"] unfolding m by (simp add: take_bit_eq_mask)
qed

lemma halves_bytes:
  "ucast (drop_bit 8 (drop_bit 16 ((w :: u32) AND 0xffff0000))) = (ucast (drop_bit 24 w) :: u8)"
  "ucast (drop_bit 16 (w AND 0xffff0000)) = (ucast (drop_bit 16 w) :: u8)"
  "ucast (drop_bit 8 (w AND 0xffff)) = (ucast (drop_bit 8 w) :: u8)"
  "ucast (w AND 0xffff) = (ucast w :: u8)"
proof -
  have m: "(0xffff :: u32) = mask 16" "(0xffff0000 :: u32) = push_bit 16 (mask 16)"
    by (simp_all add: mask_eq_exp_minus_1)
  show "ucast (drop_bit 8 (drop_bit 16 (w AND 0xffff0000))) = (ucast (drop_bit 24 w) :: u8)"
    "ucast (drop_bit 16 (w AND 0xffff0000)) = (ucast (drop_bit 16 w) :: u8)"
    "ucast (drop_bit 8 (w AND 0xffff)) = (ucast (drop_bit 8 w) :: u8)"
    "ucast (w AND 0xffff) = (ucast w :: u8)"
    unfolding m by (rule bit_word_eqI; auto simp: bit_simps)+
qed

lemma parse_groups:
  assumes "a < 0x10000" "b < 0x10000" "c < 0x10000" "d < 0x10000"
    "e < 0x10000" "f < 0x10000" "g < 0x10000" "h < 0x10000"
  shows "parseIPv6 (hex4 a @ '':'' @ hex4 b @ '':'' @ hex4 c @ '':'' @ hex4 d @ '':'' @
      hex4 e @ '':'' @ hex4 f @ '':'' @ hex4 g @ '':'' @ hex4 h) [] None =
    Some [ucast (drop_bit 8 a), ucast a, ucast (drop_bit 8 b), ucast b, ucast (drop_bit 8 c), ucast c,
      ucast (drop_bit 8 d), ucast d, ucast (drop_bit 8 e), ucast e, ucast (drop_bit 8 f), ucast f,
      ucast (drop_bit 8 g), ucast g, ucast (drop_bit 8 h), ucast h]"
  using assms hex4_nonempty [of h "[]"]
  by (simp add: parseIPv6_group parseIPv6_last hex4_nonempty)

lemma parse_IPv6_text:
  "parseIPv6 (IPv6_text ip0 ip1 ip2 ip3) [] None = Some (put32 ip0 @ put32 ip1 @ put32 ip2 @ put32 ip3)"
  unfolding IPv6_text_def parse_groups [OF halves_lt halves_lt halves_lt halves_lt] halves_bytes
  by (simp add: put32_def)

lemma ParseIP_IPv6_text:
  "net_ParseIP (IPv6_text ip0 ip1 ip2 ip3) = Some (put32 ip0 @ put32 ip1 @ put32 ip2 @ put32 ip3)"
proof -
  let ?s = "IPv6_text ip0 ip1 ip2 ip3"
  have set: "c = CHR '':'' \<or> hex_val c \<noteq> None" if "c \<in> set ?s" for c
    using that hex_val_hex4 unfolding IPv6_text_def by (auto simp del: hex_val_sep)
  then have pct: "CHR ''%'' \<notin> set ?s" using hex_val_sep by fastforce
  have dot: "CHR ''.'' \<notin> set ?s" using set hex_val_sep by fastforce
  obtain cs where "filter (\<lambda>c. c = CHR ''.'' \<or> c = CHR '':'') ?s = CHR '':'' # cs"
  proof (cases "filter (\<lambda>c. c = CHR ''.'' \<or> c = CHR '':'') ?s")
    case Nil
    moreover have "CHR '':'' \<in> set ?s" by (simp add: IPv6_text_def)
    ultimately show thesis by (auto simp: filter_empty_conv)
  next
    case (Cons c cs)
    then have "c \<in> set (filter (\<lambda>c. c = CHR ''.'' \<or> c = CHR '':'') ?s)" by simp
    then have "c \<in> set ?s" "c = CHR ''.'' \<or> c = CHR '':''" by simp_all
    then show thesis using that Cons dot by auto
  qed
  moreover have "take 2 ?s \<noteq> ''::''"
  proof -
    have "hd ?s \<noteq> CHR '':''" unfolding IPv6_text_def by (rule hex4_nonempty)
    then show ?thesis by (cases ?s) auto
  qed
  ultimately show ?thesis
    using pct by (simp add: net_ParseIP_def parse_IPv6_text)
qed

section \<open>Round trip\<close>

lemma put32_le32: "put32 (le32 b i) = [b ! (i + 3), b ! (i + 2), b ! (i + 1), b ! i]"
  by (auto simp: le32_def put32_def bit_simps intro!: bit_word_eqI)

lemma le32_eq_0: "le32 b i = 0 \<longleftrightarrow> b ! i = 0 \<and> b ! (i + 1) = 0 \<and> b ! (i + 2) = 0 \<and> b ! (i + 3) = 0"
proof
  assume "le32 b i = 0"
  then have "[b ! (i + 3), b ! (i + 2), b ! (i + 1), b ! i] = put32 0" by (metis put32_le32)
  then show "b ! i = 0 \<and> b ! (i + 1) = 0 \<and> b ! (i + 2) = 0 \<and> b ! (i + 3) = 0" by (simp add: put32_def)
qed (simp add: le32_def)

lemma IPv4_of_le32:
  "IPv4_of_word (le32 b i) = net_IPv4 (b ! (i + 3)) (b ! (i + 2)) (b ! (i + 1)) (b ! i)"
proof -
  have m: "(0xff000000 :: u32) = push_bit 24 (mask 8)" "(0x00ff0000 :: u32) = push_bit 16 (mask 8)"
    "(0x0000ff00 :: u32) = push_bit 8 (mask 8)" "(0x0000ff :: u32) = mask 8"
    by (simp_all add: mask_eq_exp_minus_1)
  have "ucast (drop_bit 24 (w AND 0xff000000)) = (ucast (drop_bit 24 w) :: u8)"
    "ucast (drop_bit 16 (w AND 0x00ff0000)) = (ucast (drop_bit 16 w) :: u8)"
    "ucast (drop_bit 8 (w AND 0x0000ff00)) = (ucast (drop_bit 8 w) :: u8)"
    "ucast (w AND 0x0000ff) = (ucast w :: u8)" for w :: u32
    unfolding m by (rule bit_word_eqI; auto simp: bit_simps)+
  then show ?thesis
    using put32_le32 [of b i] by (simp add: IPv4_of_word_def put32_def)
qed

lemma IP_Unmarshal_16:
  assumes "data = [d0, d1, d2, d3, d4, d5, d6, d7, d8, d9, d10, d11, d12, d13, d14, d15]"
  shows "IP_Unmarshal data =
    (let ip = (if d4 = 0 \<and> d5 = 0 \<and> d6 = 0 \<and> d7 = 0 \<and> d8 = 0 \<and> d9 = 0 \<and> d10 = 0 \<and> d11 = 0
          \<and> d12 = 0 \<and> d13 = 0 \<and> d14 = 0 \<and> d15 = 0
        then net_IPv4 d3 d2 d1 d0
        else [d15, d14, d13, d12, d11, d10, d9, d8, d7, d6, d5, d4, d3, d2, d1, d0])
     in Inr (if \<not> IP_isValid (Some ip) then IP_setDefault else Some ip))"
proof -
  have z: "(le32 data 12 = 0 \<and> le32 data 8 = 0 \<and> le32 data 4 = 0) =
      (d4 = 0 \<and> d5 = 0 \<and> d6 = 0 \<and> d7 = 0 \<and> d8 = 0 \<and> d9 = 0 \<and> d10 = 0 \<and> d11 = 0
          \<and> d12 = 0 \<and> d13 = 0 \<and> d14 = 0 \<and> d15 = 0)"
    unfolding le32_eq_0 assms by auto
  show ?thesis
    unfolding IP_Unmarshal_def Let_def z ParseIP_IPv6_text put32_le32 IPv4_of_le32
    by (simp add: assms)
qed

definition sixteen :: "bytes \<Rightarrow> bytes" where
  "sixteen ip = (if length ip = 4 then v4InV6Prefix @ ip else ip)"

lemma list_16:
  assumes "length xs = 16"
  obtains a b c d e f g h i j k l m n p q where "xs = [a, b, c, d, e, f, g, h, i, j, k, l, m, n, p, q]"
  using assms by (auto simp: length_Suc_conv eval_nat_numeral)

lemma list_4:
  assumes "length xs = 4" obtains a b c d where "xs = [a, b, c, d]"
  using assms by (auto simp: length_Suc_conv eval_nat_numeral)

text \<open>What a peer reads when the 16-byte address \<open>ip\<close> was sent.\<close>

definition as_received :: "bytes \<Rightarrow> bytes" where
  "as_received ip = (if take 12 ip = replicate 12 0 then v4InV6Prefix @ drop 12 ip else ip)"

lemma IP_Marshal_16:
  assumes "ip = [a, b, c, d, e, f, g, h, i, j, k, l, m, n, p, q]" and "IP_isValid (Some ip)"
    and "length buf = 16"
  shows "IP_Marshal (Some ip) buf = Inr (Some ip, [q, p, n, m] @
    (if take 12 ip = v4InV6Prefix then replicate 12 0 else [l, k, j, i, h, g, f, e, d, c, b, a]))"
  using assms by (simp add: IP_Marshal_def Let_def net_To4_def)

lemma IP_round_trip_16:
  assumes "length ip = 16" and "IP_isValid (Some ip)" and "length buf = 16"
  shows "\<exists>bs. IP_Marshal (Some ip) buf = Inr (Some ip, bs) \<and> length bs = 16
    \<and> IP_Unmarshal bs = Inr (Some (as_received ip))"
proof -
  obtain a b c d e f g h i j k l m n p q where ip: "ip = [a, b, c, d, e, f, g, h, i, j, k, l, m, n, p, q]"
    using list_16 [OF assms(1)] .
  have valid: "\<not> (a = 0 \<and> b = 0 \<and> c = 0 \<and> d = 0 \<and> e = 0 \<and> f = 0 \<and> g = 0 \<and> h = 0 \<and> i = 0 \<and> j = 0
      \<and> k = 0 \<and> l = 0 \<and> m = 0 \<and> n = 0 \<and> p = 0 \<and> q = 0)"
    "take 12 ip = v4InV6Prefix \<longrightarrow> \<not> (m = 0 \<and> n = 0 \<and> p = 0 \<and> q = 0)"
    using assms(2) by (auto simp: ip IP_isValid_def net_IsUnspecified_def net_Equal_def net_IPv4_def
        v4InV6Prefix_def eval_nat_numeral)
  have ok: "IP_isValid (Some (net_IPv4 m n p q))" if "\<not> (m = 0 \<and> n = 0 \<and> p = 0 \<and> q = 0)"
    using that by (auto simp: IP_isValid_def net_IsUnspecified_def net_Equal_def net_IPv4_def
        v4InV6Prefix_def eval_nat_numeral)
  show ?thesis
  proof (cases "take 12 ip = v4InV6Prefix")
    case True
    then have "as_received ip = ip" "ip = net_IPv4 m n p q"
      by (auto simp: as_received_def net_IPv4_def ip v4InV6Prefix_def eval_nat_numeral)
    then show ?thesis
      using True IP_Marshal_16 [OF ip assms(2,3)] valid ok
        IP_Unmarshal_16 [of "[q, p, n, m] @ replicate 12 0"]
      by (simp add: eval_nat_numeral)
  next
    case False
    have rcv: "as_received ip = (if l = 0 \<and> k = 0 \<and> j = 0 \<and> i = 0 \<and> h = 0 \<and> g = 0 \<and> f = 0 \<and> e = 0
        \<and> d = 0 \<and> c = 0 \<and> b = 0 \<and> a = 0 then net_IPv4 m n p q else ip)"
      by (auto simp: as_received_def net_IPv4_def ip eval_nat_numeral)
    have "IP_Unmarshal ([q, p, n, m] @ [l, k, j, i, h, g, f, e, d, c, b, a]) = Inr (Some (as_received ip))"
      using IP_Unmarshal_16 [of "[q, p, n, m] @ [l, k, j, i, h, g, f, e, d, c, b, a]"] valid(1) ok assms(2)
      unfolding rcv by (auto simp: Let_def ip)
    then show ?thesis
      using False IP_Marshal_16 [OF ip assms(2,3)] by simp
  qed
qed

text \<open>
  C40. A valid peer address of 4 or 16 bytes survives the handshake encoding in its 16-byte form, with one
  exception that the four-word format cannot express: an IPv6 address whose first twelve bytes are zero,
  such as the loopback address, is read back as an IPv4 address.
\<close>

theorem IP_round_trip:
  assumes "length ip = 4 \<or> length ip = 16" and "IP_isValid (Some ip)" and "length buf = 16"
  shows "\<exists>bs. IP_Marshal (Some ip) buf = Inr (Some (sixteen ip), bs) \<and> length bs = 16
    \<and> IP_Unmarshal bs = Inr (Some (as_received (sixteen ip)))"
proof (cases "length ip = 4")
  case True
  then obtain a b c d where ip: "ip = [a, b, c, d]" using list_4 by blast
  have "IP_isValid (Some (v4InV6Prefix @ ip))" "IP_Marshal (Some ip) buf = IP_Marshal (Some (v4InV6Prefix @ ip)) buf"
    using assms(2) by (auto simp: ip IP_isValid_def net_IsUnspecified_def net_Equal_def net_IPv4_def
        v4InV6Prefix_def IP_Marshal_def eval_nat_numeral)
  then show ?thesis
    using IP_round_trip_16 [of "v4InV6Prefix @ ip" buf] True assms(3)
    by (simp add: sixteen_def v4InV6Prefix_def)
next
  case False
  then show ?thesis using IP_round_trip_16 [of ip buf] assms by (simp add: sixteen_def)
qed

theorem IP_round_trip_witness:
  "\<exists>bs. IP_Marshal (Some (replicate 15 0 @ [1])) (replicate 16 0) = Inr (Some (replicate 15 0 @ [1]), bs)
    \<and> length bs = 16 \<and> IP_Unmarshal bs = Inr (Some (net_IPv4 0 0 0 1))"
proof -
  have "IP_isValid (Some (replicate 15 0 @ [1]))" "as_received (sixteen (replicate 15 0 @ [1])) = net_IPv4 0 0 0 1"
    "sixteen (replicate 15 0 @ [1]) = replicate 15 0 @ [1]"
    by code_simp+
  then show ?thesis using IP_round_trip [of "replicate 15 0 @ [1]" "replicate 16 0"] by simp
qed

end
