(* ===== verification/Packet_Handshake.thy ===== *)
theory Packet_Handshake
  imports Packet_CIF Net_IP
begin

text \<open>
  The handshake message \<open>CIFHandshake\<close> of \<^verbatim>\<open>packet/packet.go\<close>: 48 fixed bytes and, in the conclusion
  of a version 5 handshake, a list of typed extensions.

  The extension loop of \<open>Unmarshal\<close> is a function on the remaining bytes (it terminates because each
  round consumes the four bytes of an extension header). It reads that header without looking at the
  number of bytes that are left; the panic is part of the model.
\<close>

section \<open>The message\<close>

record CIFHandshake =
  hsIsRequest :: bool
  hsVersion :: u32
  EncryptionField :: u16
  ExtensionField :: u16
  InitialPacketSequenceNumber :: Number
  MaxTransmissionUnitSize :: u32
  MaxFlowWindowSize :: u32
  hsType :: HandshakeType
  SRTSocketId :: u32
  SynCookie :: u32
  PeerIP :: go_ip
  HasHS :: bool
  HasKM :: bool
  HasSID :: bool
  HasCongestionCtl :: bool
  SRTHS :: "CIFHandshakeExtension option"
  SRTKM :: "CIFKeyMaterialExtension option"
  hsStreamId :: string
  CongestionCtl :: string

text \<open>The zero values \<^verbatim>\<open>circular.Number{}\<close>, \<^verbatim>\<open>CIFHandshakeExtension{}\<close> and \<^verbatim>\<open>CIFHandshake{}\<close>.\<close>

definition zero_Number :: Number where
  "zero_Number = \<lparr>nmax = 0, nthreshold = 0, nvalue = 0\<rparr>"

definition zero_HSExt :: CIFHandshakeExtension where
  "zero_HSExt = \<lparr>SRTVersion = 0,
     SRTFlags = \<lparr>TSBPDSND = False, TSBPDRCV = False, CRYPT = False, TLPKTDROP = False,
       PERIODICNAK = False, REXMITFLG = False, STREAM = False, PACKET_FILTER = False\<rparr>,
     RecvTSBPDDelay = 0, SendTSBPDDelay = 0\<rparr>"

definition zero_Handshake :: CIFHandshake where
  "zero_Handshake = \<lparr>hsIsRequest = False, hsVersion = 0, EncryptionField = 0, ExtensionField = 0,
     InitialPacketSequenceNumber = zero_Number, MaxTransmissionUnitSize = 0, MaxFlowWindowSize = 0,
     hsType = 0, SRTSocketId = 0, SynCookie = 0, PeerIP = None, HasHS = False, HasKM = False,
     HasSID = False, HasCongestionCtl = False, SRTHS = None, SRTKM = None, hsStreamId = [],
     CongestionCtl = []\<rparr>"

section \<open>Unmarshal\<close>

text \<open>Strings travel in groups of four bytes, each group in reverse order.\<close>

fun swap4 :: "'a list \<Rightarrow> 'a list" where
  "swap4 (a # b # c # d # xs) = d # c # b # a # swap4 xs"
| "swap4 _ = []"

definition byte_char :: "u8 \<Rightarrow> char" where
  "byte_char b = char_of (unat b)"

definition char_byte :: "char \<Rightarrow> u8" where
  "char_byte c = of_nat (of_char c)"

definition TrimRight0 :: "string \<Rightarrow> string" where
  "TrimRight0 s = rev (dropWhile (\<lambda>c. c = CHR 0x00) (rev s))"

definition read_string :: "bytes \<Rightarrow> string" where
  "read_string b = TrimRight0 (map byte_char (swap4 b))"

text \<open>One extension: its type, its announced length and the bytes after the extension header.\<close>

definition CIFHandshake_extension ::
  "CIFHandshake \<Rightarrow> CtrlSubType \<Rightarrow> nat \<Rightarrow> bytes \<Rightarrow> (packet_error, CIFHandshake) result" where
  "CIFHandshake_extension c extensionType extensionLength pivot =
     (if extensionType = EXTTYPE_HSREQ \<or> extensionType = EXTTYPE_HSRSP then
        (if extensionLength \<noteq> 12 \<or> length pivot < extensionLength
         then Inl (Err (InvalidExtensionLength extensionLength extensionType))
         else case CIFHandshakeExtension_Unmarshal zero_HSExt pivot of
                Inl e \<Rightarrow> Inl e
              | Inr hs \<Rightarrow> Inr (c\<lparr>HasHS := True, SRTHS := Some hs\<rparr>))
      else if extensionType = EXTTYPE_KMREQ \<or> extensionType = EXTTYPE_KMRSP then
        (if length pivot < extensionLength
         then Inl (Err (InvalidExtensionLength extensionLength extensionType))
         else case CIFKeyMaterialExtension_Unmarshal zero_KM pivot of
                Inl e \<Rightarrow> Inl e
              | Inr km \<Rightarrow>
                  let c = c\<lparr>HasKM := True, SRTKM := Some km\<rparr>;
                      c = (if EncryptionField c = 0 then c\<lparr>EncryptionField := 2\<rparr> else c)
                  in if EncryptionField c = 2 \<and> KLen km \<noteq> 16 \<or> EncryptionField c = 3 \<and> KLen km \<noteq> 24
                        \<or> EncryptionField c = 4 \<and> KLen km \<noteq> 32
                     then Inl (Err (InvalidKeyLengthFor (EncryptionField c) (KLen km * 8)))
                     else Inr c)
      else if extensionType = EXTTYPE_SID then
        (if extensionLength > 512 \<or> length pivot < extensionLength
         then Inl (Err (InvalidExtensionLength extensionLength extensionType))
         else Inr (c\<lparr>HasSID := True, hsStreamId := read_string (take extensionLength pivot)\<rparr>))
      else if extensionType = EXTTYPE_CONGESTION then
        (if extensionLength > 4 \<or> length pivot < extensionLength
         then Inl (Err (InvalidExtensionLength extensionLength extensionType))
         else Inr (c\<lparr>HasCongestionCtl := True, CongestionCtl := read_string (take extensionLength pivot)\<rparr>))
      else
        (if length pivot < extensionLength
         then Inl (Err (InvalidExtensionLength extensionLength extensionType))
         else Inr c))"

function CIFHandshake_loop :: "CIFHandshake \<Rightarrow> bytes \<Rightarrow> (packet_error, CIFHandshake) result" where
  "CIFHandshake_loop c pivot =
     (if length pivot < 4 then Inl Panic
      else
        let extensionType = be16 pivot 0;
            extensionLength = unat (be16 pivot 2) * 4;
            pivot = drop 4 pivot
        in case CIFHandshake_extension c extensionType extensionLength pivot of
             Inl e \<Rightarrow> Inl e
           | Inr c \<Rightarrow>
               if length pivot > extensionLength then CIFHandshake_loop c (drop extensionLength pivot)
               else Inr c)"
  by pat_completeness auto
termination
  by (relation "measure (\<lambda>(c, pivot). length pivot)") auto

declare CIFHandshake_loop.simps [simp del]

definition CIFHandshake_fixed :: "CIFHandshake \<Rightarrow> bytes \<Rightarrow> CIFHandshake" where
  "CIFHandshake_fixed c data =
     c\<lparr>hsVersion := be32 data 0, EncryptionField := be16 data 4, ExtensionField := be16 data 6,
       InitialPacketSequenceNumber := seq_at data 8, MaxTransmissionUnitSize := be32 data 12,
       MaxFlowWindowSize := be32 data 16, hsType := be32 data 20, SRTSocketId := be32 data 24,
       SynCookie := be32 data 28,
       PeerIP := (case IP_Unmarshal (take 16 (drop 32 data)) of Inl _ \<Rightarrow> PeerIP c | Inr ip \<Rightarrow> ip)\<rparr>"

definition CIFHandshake_Unmarshal :: "CIFHandshake \<Rightarrow> bytes \<Rightarrow> (packet_error, CIFHandshake) result" where
  "CIFHandshake_Unmarshal c data =
     (if length data < 48 then Inl (Err DataTooShort)
      else
        let c = CIFHandshake_fixed c data in
        if hsType c = HSTYPE_INDUCTION then Inr c
        else if hsType c \<noteq> HSTYPE_CONCLUSION then Inr c
        else if ExtensionField c = 0 then Inr c
        else if length data \<le> 48 then Inr c
        else if EncryptionField c \<noteq> 0 \<and> EncryptionField c \<noteq> 2 \<and> EncryptionField c \<noteq> 3
                \<and> EncryptionField c \<noteq> 4
        then Inl (Err (InvalidEncryptionField (EncryptionField c)))
        else CIFHandshake_loop c (drop 48 data))"

section \<open>Marshal\<close>

text \<open>
  \<open>Marshal\<close> first rewrites the fields that depend on the extensions present. It panics when a flag
  announces an extension whose pointer is nil. It returns the message as it leaves it and the bytes.
\<close>

definition pad4 :: "bytes \<Rightarrow> bytes" where
  "pad4 b = (let missing = 4 - length b mod 4 in if missing < 4 then b @ replicate missing 0 else b)"

definition extension_bytes :: "CtrlSubType \<Rightarrow> bytes \<Rightarrow> bytes" where
  "extension_bytes t d = put16 t @ put16 (of_nat (length d div 4)) @ d"

definition string_extension :: "CtrlSubType \<Rightarrow> string \<Rightarrow> bytes" where
  "string_extension t s = extension_bytes t (swap4 (pad4 (map char_byte s)))"

definition CIFHandshake_prepare :: "CIFHandshake \<Rightarrow> (packet_error, CIFHandshake) result" where
  "CIFHandshake_prepare c =
     (let c = (if hsStreamId c = [] then c\<lparr>HasSID := False\<rparr> else c) in
      if hsVersion c = 5 then
        let c = (if hsType c = HSTYPE_CONCLUSION then c\<lparr>ExtensionField := 0\<rparr> else c);
            c = (if HasHS c then c\<lparr>ExtensionField := ExtensionField c OR 1\<rparr> else c)
        in
        if HasKM c \<and> SRTKM c = None then Inl Panic
        else
          let c = (if HasKM c then c\<lparr>EncryptionField := KLen (the (SRTKM c)) div 8,
                                   ExtensionField := ExtensionField c OR 2\<rparr> else c);
              c = (if HasSID c then c\<lparr>ExtensionField := ExtensionField c OR 4\<rparr> else c);
              c = (if HasCongestionCtl c then c\<lparr>ExtensionField := ExtensionField c OR 4\<rparr> else c)
          in Inr c
      else Inr (c\<lparr>EncryptionField := 0, ExtensionField := 2\<rparr>))"

definition CIFHandshake_extensions :: "CIFHandshake \<Rightarrow> (packet_error, bytes) result" where
  "CIFHandshake_extensions c =
     (if HasHS c \<and> SRTHS c = None \<or> HasKM c \<and> SRTKM c = None then Inl Panic
      else
        case (if HasHS c then CIFHandshakeExtension_Marshal (the (SRTHS c)) (Some []) else Inr []) of
          Inl e \<Rightarrow> Inl e
        | Inr hs \<Rightarrow>
        case (if HasKM c then CIFKeyMaterialExtension_Marshal (the (SRTKM c)) (Some []) else Inr []) of
          Inl e \<Rightarrow> Inl e
        | Inr km \<Rightarrow>
          Inr ((if HasHS c
                then put16 (if hsIsRequest c then EXTTYPE_HSREQ else EXTTYPE_HSRSP) @ put16 3 @ hs
                else [])
            @ (if HasKM c
               then extension_bytes (if hsIsRequest c then EXTTYPE_KMREQ else EXTTYPE_KMRSP) km else [])
            @ (if HasSID c then string_extension EXTTYPE_SID (hsStreamId c) else [])
            @ (if HasCongestionCtl c \<and> CongestionCtl c \<noteq> ''live''
               then string_extension EXTTYPE_CONGESTION (CongestionCtl c) else [])))"

definition CIFHandshake_Marshal ::
  "CIFHandshake \<Rightarrow> bytes option \<Rightarrow> (packet_error, CIFHandshake \<times> bytes) result" where
  "CIFHandshake_Marshal c w =
     (case w of
        None \<Rightarrow> Inl (Err InvalidWriter)
      | Some out \<Rightarrow>
          (case CIFHandshake_prepare c of
             Inl e \<Rightarrow> Inl e
           | Inr c \<Rightarrow>
               (case IP_Marshal (PeerIP c) (replicate 16 0) of
                  Inl _ \<Rightarrow> Inl Panic
                | Inr (ip, ipb) \<Rightarrow>
                    let c = c\<lparr>PeerIP := ip\<rparr>;
                        buffer = put32 (hsVersion c) @ put16 (EncryptionField c) @ put16 (ExtensionField c)
                          @ put32 (Number_Val (InitialPacketSequenceNumber c))
                          @ put32 (MaxTransmissionUnitSize c) @ put32 (MaxFlowWindowSize c)
                          @ put32 (hsType c) @ put32 (SRTSocketId c) @ put32 (SynCookie c) @ ipb
                    in case CIFHandshake_extensions c of
                         Inl e \<Rightarrow> Inl e
                       | Inr ext \<Rightarrow> Inr (c, out @ buffer @ ext))))"

section \<open>Strings\<close>

lemma swap4_swap4: "length xs mod 4 = 0 \<Longrightarrow> swap4 (swap4 xs) = xs"
proof (induction xs rule: swap4.induct)
  case (1 a b c d xs)
  then show ?case by (simp add: mod_Suc split: if_splits)
qed (auto split: if_splits)

lemma length_swap4 [simp]: "length xs mod 4 = 0 \<Longrightarrow> length (swap4 xs) = length xs"
proof (induction xs rule: swap4.induct)
  case (1 a b c d xs)
  then show ?case by (simp add: mod_Suc split: if_splits)
qed (auto split: if_splits)

lemma length_pad4: "length (pad4 b) mod 4 = 0" "length (pad4 b) = 4 * ((length b + 3) div 4)"
proof -
  have "4 - n mod 4 < 4 \<Longrightarrow> (n + (4 - n mod 4)) mod 4 = 0 \<and> n + (4 - n mod 4) = 4 * ((n + 3) div 4)"
    "\<not> 4 - n mod 4 < 4 \<Longrightarrow> n mod 4 = 0 \<and> n = 4 * ((n + 3) div 4)" for n :: nat
    by presburger+
  then show "length (pad4 b) mod 4 = 0" "length (pad4 b) = 4 * ((length b + 3) div 4)"
    by (simp_all add: pad4_def Let_def)
qed

lemma byte_char_byte [simp]: "byte_char (char_byte c) = c"
proof -
  have "(of_char c :: nat) < 2 ^ 8" by simp
  then have "unat (of_nat (of_char c) :: u8) = of_char c"
    by (simp add: unsigned_of_nat take_bit_nat_eq_self)
  then show ?thesis by (simp add: byte_char_def char_byte_def)
qed

lemma read_string_round_trip:
  assumes "s = [] \<or> last s \<noteq> CHR 0x00"
  shows "read_string (swap4 (pad4 (map char_byte s))) = s"
proof -
  obtain n where n: "pad4 (map char_byte s) = map char_byte s @ replicate n 0"
    unfolding pad4_def Let_def by (metis append_Nil2 replicate_0)
  have "map byte_char (map char_byte s @ replicate n 0) = s @ replicate n (CHR 0x00)"
    by (simp add: comp_def byte_char_def [of 0] char_of_def)
  moreover have "TrimRight0 (s @ replicate n (CHR 0x00)) = s"
  proof -
    have "dropWhile (\<lambda>c. c = CHR 0x00) (replicate n (CHR 0x00) @ rev s) = dropWhile (\<lambda>c. c = CHR 0x00) (rev s)"
      by (induction n) auto
    moreover have "dropWhile (\<lambda>c. c = CHR 0x00) (rev s) = rev s"
      using assms by (cases s rule: rev_cases) auto
    ultimately have "dropWhile (\<lambda>c. c = CHR 0x00) (replicate n (CHR 0x00) @ rev s) = rev s" by simp
    then show ?thesis by (simp add: TrimRight0_def)
  qed
  ultimately show ?thesis
    unfolding read_string_def swap4_swap4 [OF length_pad4(1)] unfolding n by (simp only:)
qed

section \<open>Round trip\<close>

text \<open>The loop as it continues after one extension.\<close>

definition loop_rest :: "CIFHandshake \<Rightarrow> bytes \<Rightarrow> (packet_error, CIFHandshake) result" where
  "loop_rest c rest = (if rest = [] then Inr c else CIFHandshake_loop c rest)"

lemma loop_rest_extension:
  assumes "n = length d" and "length d mod 4 = 0" and "length d < 262144"
    and "CIFHandshake_extension c t n (d @ rest) = Inr c'"
  shows "loop_rest c (extension_bytes t d @ rest) = loop_rest c' rest"
proof -
  have "unat (of_nat (length d div 4) :: u16) = length d div 4"
    using assms(3) by (simp add: unsigned_of_nat take_bit_nat_eq_self)
  then have len: "unat (of_nat (length d div 4) :: u16) * 4 = length d"
    using assms(2) by (simp add: mod_eq_0_iff_dvd)
  let ?p = "extension_bytes t d @ rest"
  have rd: "be16 ?p 0 = t" "be16 ?p 2 = of_nat (length d div 4)" "drop 4 ?p = d @ rest" "\<not> length ?p < 4"
    by (simp_all add: extension_bytes_def codec)
  have "loop_rest c ?p = CIFHandshake_loop c ?p" using rd(4) by (auto simp: loop_rest_def)
  also have "\<dots> = loop_rest c' rest"
    using assms(1,4) rd(4)
    by (subst CIFHandshake_loop.simps)
      (simp only: Let_def rd(1-4) if_False len, simp add: loop_rest_def)
  finally show ?thesis .
qed

lemma extension_HS:
  assumes "CIFHandshakeExtension_Marshal hs (Some []) = Inr d" and "t = EXTTYPE_HSREQ \<or> t = EXTTYPE_HSRSP"
  shows "CIFHandshake_extension c t (length d) (d @ rest) = Inr (c\<lparr>HasHS := True, SRTHS := Some hs\<rparr>)"
    and "length d = 12"
  using assms
  by (auto simp: CIFHandshake_extension_def CIFHandshakeExtension_Marshal_def
      CIFHandshakeExtension_Unmarshal_def codec flags_word_round_trip)

lemma extension_KM:
  assumes "valid_KM km" and "CIFKeyMaterialExtension_Marshal km (Some []) = Inr d"
    and "t = EXTTYPE_KMREQ \<or> t = EXTTYPE_KMRSP" and "EncryptionField c = KLen km div 8"
  shows "CIFHandshake_extension c t (length d) (d @ rest) =
      Inr (c\<lparr>HasKM := True, SRTKM := Some (merge_KM km zero_KM)\<rparr>)"
    and "length d mod 4 = 0 \<and> length d \<le> 128"
proof -
  have d: "d = KM_head km @ (if SLen km \<noteq> 0 then kmSalt km else []) @ kmWrap km"
    using assms(2) by (auto simp: CIFKeyMaterialExtension_Marshal_def Let_def split: if_splits)
  have "CIFKeyMaterialExtension_Unmarshal zero_KM (d @ rest) = Inr (merge_KM km zero_KM)"
    using KM_round_trip [OF assms(1), of "d @ rest" rest] d by simp
  moreover have "KLen km = 16 \<or> KLen km = 24 \<or> KLen km = 32" using assms(1) by (auto simp: valid_KM_def)
  ultimately show "CIFHandshake_extension c t (length d) (d @ rest) =
      Inr (c\<lparr>HasKM := True, SRTKM := Some (merge_KM km zero_KM)\<rparr>)"
    using assms(3,4) by (elim disjE) (simp_all add: CIFHandshake_extension_def Let_def merge_KM_def)
  show "length d mod 4 = 0 \<and> length d \<le> 128"
    using assms(1) d by (auto simp: valid_KM_def wrap_length_def)
qed

lemma extension_SID:
  assumes "length s \<le> 512" and "s = [] \<or> last s \<noteq> CHR 0x00"
  defines "d \<equiv> swap4 (pad4 (map char_byte s))"
  shows "CIFHandshake_extension c EXTTYPE_SID (length d) (d @ rest) =
      Inr (c\<lparr>HasSID := True, hsStreamId := s\<rparr>)"
    and "length d mod 4 = 0 \<and> length d \<le> 512"
proof -
  show l: "length d mod 4 = 0 \<and> length d \<le> 512"
    using assms(1) length_pad4 [of "map char_byte s"] by (simp add: d_def)
  show "CIFHandshake_extension c EXTTYPE_SID (length d) (d @ rest) =
      Inr (c\<lparr>HasSID := True, hsStreamId := s\<rparr>)"
    using l read_string_round_trip [OF assms(2)] by (simp add: CIFHandshake_extension_def d_def)
qed

lemma extension_CC:
  assumes "length s \<le> 4" and "s = [] \<or> last s \<noteq> CHR 0x00"
  defines "d \<equiv> swap4 (pad4 (map char_byte s))"
  shows "CIFHandshake_extension c EXTTYPE_CONGESTION (length d) (d @ rest) =
      Inr (c\<lparr>HasCongestionCtl := True, CongestionCtl := s\<rparr>)"
    and "length d mod 4 = 0 \<and> length d \<le> 4"
proof -
  show l: "length d mod 4 = 0 \<and> length d \<le> 4"
    using assms(1) length_pad4 [of "map char_byte s"] by (simp add: d_def)
  show "CIFHandshake_extension c EXTTYPE_CONGESTION (length d) (d @ rest) =
      Inr (c\<lparr>HasCongestionCtl := True, CongestionCtl := s\<rparr>)"
    using l read_string_round_trip [OF assms(2)] by (simp add: CIFHandshake_extension_def d_def)
qed

text \<open>
  The messages the implementation sends: a version 5 conclusion with well-formed extensions, or a message
  without extensions. The congestion control name \<^verbatim>\<open>live\<close> is the default and is not sent.
\<close>

definition no_trailing_zero :: "string \<Rightarrow> bool" where
  "no_trailing_zero s \<longleftrightarrow> s = [] \<or> last s \<noteq> CHR 0x00"

definition valid_peer :: "go_ip \<Rightarrow> bool" where
  "valid_peer i \<longleftrightarrow> (case i of None \<Rightarrow> False
     | Some ip \<Rightarrow> length ip = 16 \<and> IP_isValid (Some ip) \<and> as_received ip = ip)"

definition valid_SRTKM :: "CIFKeyMaterialExtension option \<Rightarrow> bool" where
  "valid_SRTKM k \<longleftrightarrow> (case k of None \<Rightarrow> False | Some km \<Rightarrow> valid_KM km \<and> merge_KM km zero_KM = km)"

definition valid_Handshake :: "CIFHandshake \<Rightarrow> bool" where
  "valid_Handshake c \<longleftrightarrow>
     (hsVersion c = 5 \<and> hsType c = HSTYPE_CONCLUSION
      \<or> \<not> HasHS c \<and> \<not> HasKM c \<and> \<not> HasSID c \<and> \<not> HasCongestionCtl c)
     \<and> wf_seq (InitialPacketSequenceNumber c) \<and> valid_peer (PeerIP c)
     \<and> (HasHS c \<longrightarrow> SRTHS c \<noteq> None) \<and> (HasKM c \<longrightarrow> valid_SRTKM (SRTKM c))
     \<and> (EncryptionField c = 0 \<or> EncryptionField c = 2 \<or> EncryptionField c = 3 \<or> EncryptionField c = 4)
     \<and> length (hsStreamId c) \<le> 512 \<and> no_trailing_zero (hsStreamId c)
     \<and> length (CongestionCtl c) \<le> 4 \<and> no_trailing_zero (CongestionCtl c)"

definition sends_SID :: "CIFHandshake \<Rightarrow> bool" where
  "sends_SID c \<longleftrightarrow> HasSID c \<and> hsStreamId c \<noteq> []"

definition sends_CC :: "CIFHandshake \<Rightarrow> bool" where
  "sends_CC c \<longleftrightarrow> HasCongestionCtl c \<and> CongestionCtl c \<noteq> ''live''"

text \<open>The fields \<open>Marshal\<close> computes.\<close>

definition sent_encryption :: "CIFHandshake \<Rightarrow> u16" where
  "sent_encryption c =
     (if hsVersion c \<noteq> 5 then 0 else if HasKM c then KLen (the (SRTKM c)) div 8 else EncryptionField c)"

definition sent_extension :: "CIFHandshake \<Rightarrow> u16" where
  "sent_extension c =
     (if hsVersion c \<noteq> 5 then 2
      else (if hsType c = HSTYPE_CONCLUSION then 0 else ExtensionField c)
        OR (if HasHS c then 1 else 0) OR (if HasKM c then 2 else 0)
        OR (if sends_SID c \<or> HasCongestionCtl c then 4 else 0))"

definition merge_Handshake :: "CIFHandshake \<Rightarrow> CIFHandshake \<Rightarrow> CIFHandshake" where
  "merge_Handshake c c0 =
     c\<lparr>hsIsRequest := hsIsRequest c0, EncryptionField := sent_encryption c, ExtensionField := sent_extension c,
       HasHS := HasHS c \<or> HasHS c0, SRTHS := (if HasHS c then SRTHS c else SRTHS c0),
       HasKM := HasKM c \<or> HasKM c0, SRTKM := (if HasKM c then SRTKM c else SRTKM c0),
       HasSID := sends_SID c \<or> HasSID c0, hsStreamId := (if sends_SID c then hsStreamId c else hsStreamId c0),
       HasCongestionCtl := sends_CC c \<or> HasCongestionCtl c0,
       CongestionCtl := (if sends_CC c then CongestionCtl c else CongestionCtl c0)\<rparr>"

lemma conditional_updates:
  "(if b then c\<lparr>ExtensionField := ExtensionField c OR n\<rparr> else c) =
     c\<lparr>ExtensionField := ExtensionField c OR (if b then n else 0)\<rparr>"
  "(if b then c\<lparr>EncryptionField := e, ExtensionField := ExtensionField c OR n\<rparr> else c) =
     c\<lparr>EncryptionField := if b then e else EncryptionField c,
       ExtensionField := ExtensionField c OR (if b then n else 0)\<rparr>"
  "(if b then c\<lparr>ExtensionField := n\<rparr> else c) = c\<lparr>ExtensionField := if b then n else ExtensionField c\<rparr>"
  "(if b then c\<lparr>HasSID := False\<rparr> else c) = c\<lparr>HasSID := HasSID c \<and> \<not> b\<rparr>"
  by (cases c; simp)+

lemma prepare_valid:
  assumes "valid_Handshake c"
  shows "CIFHandshake_prepare c = Inr (c\<lparr>HasSID := sends_SID c, EncryptionField := sent_encryption c,
    ExtensionField := sent_extension c\<rparr>)"
proof -
  have km: "\<not> (HasKM c \<and> SRTKM c = None)"
    using assms by (auto simp: valid_Handshake_def valid_SRTKM_def split: option.splits)
  have four: "x OR (if a then 4 else 0) OR (if b then 4 else 0) = x OR (if a \<or> b then 4 else (0 :: u16))"
    for x a b by simp
  show ?thesis
    unfolding CIFHandshake_prepare_def Let_def conditional_updates
    using km four
    by (cases "hsVersion c = 5")
      (simp_all add: sends_SID_def sent_encryption_def sent_extension_def or.assoc)
qed

definition sent_fixed :: "CIFHandshake \<Rightarrow> bytes \<Rightarrow> bytes" where
  "sent_fixed c ipb = put32 (hsVersion c) @ put16 (sent_encryption c) @ put16 (sent_extension c)
     @ put32 (Number_Val (InitialPacketSequenceNumber c))
     @ put32 (MaxTransmissionUnitSize c) @ put32 (MaxFlowWindowSize c)
     @ put32 (hsType c) @ put32 (SRTSocketId c) @ put32 (SynCookie c) @ ipb"

lemma fixed_sent_fixed:
  assumes "wf_seq (InitialPacketSequenceNumber c)" and "length ipb = 16" and "IP_Unmarshal ipb = Inr (PeerIP c)"
  shows "CIFHandshake_fixed c0 (sent_fixed c ipb @ ext) =
    c0\<lparr>hsVersion := hsVersion c, EncryptionField := sent_encryption c, ExtensionField := sent_extension c,
      InitialPacketSequenceNumber := InitialPacketSequenceNumber c,
      MaxTransmissionUnitSize := MaxTransmissionUnitSize c, MaxFlowWindowSize := MaxFlowWindowSize c,
      hsType := hsType c, SRTSocketId := SRTSocketId c, SynCookie := SynCookie c, PeerIP := PeerIP c\<rparr>"
  using assms wf_seq_masked [OF assms(1)]
  by (simp add: CIFHandshake_fixed_def sent_fixed_def codec seq_at_def Number_Val_def)

text \<open>What each optional extension does to the message being read.\<close>

definition take_HS :: "CIFHandshake \<Rightarrow> CIFHandshake \<Rightarrow> CIFHandshake" where
  "take_HS c r = (if HasHS c then r\<lparr>HasHS := True, SRTHS := SRTHS c\<rparr> else r)"

definition take_KM :: "CIFHandshake \<Rightarrow> CIFHandshake \<Rightarrow> CIFHandshake" where
  "take_KM c r = (if HasKM c then r\<lparr>HasKM := True, SRTKM := SRTKM c\<rparr> else r)"

definition take_SID :: "CIFHandshake \<Rightarrow> CIFHandshake \<Rightarrow> CIFHandshake" where
  "take_SID c r = (if sends_SID c then r\<lparr>HasSID := True, hsStreamId := hsStreamId c\<rparr> else r)"

definition take_CC :: "CIFHandshake \<Rightarrow> CIFHandshake \<Rightarrow> CIFHandshake" where
  "take_CC c r = (if sends_CC c then r\<lparr>HasCongestionCtl := True, CongestionCtl := CongestionCtl c\<rparr> else r)"

lemma loop_rest_HS:
  assumes "valid_Handshake c" and "t = EXTTYPE_HSREQ \<or> t = EXTTYPE_HSRSP"
    and "HasHS c \<Longrightarrow> CIFHandshakeExtension_Marshal (the (SRTHS c)) (Some []) = Inr d"
  shows "loop_rest r ((if HasHS c then extension_bytes t d else []) @ rest) = loop_rest (take_HS c r) rest"
proof (cases "HasHS c")
  case True
  then have "SRTHS c = Some (the (SRTHS c))" using assms(1) by (auto simp: valid_Handshake_def)
  then show ?thesis
    using True loop_rest_extension [OF refl _ _ extension_HS(1) [OF assms(3)]] extension_HS(2) [OF assms(3)] assms(2)
    by (simp add: take_HS_def)
qed (simp add: take_HS_def)

lemma loop_rest_KM:
  assumes "valid_Handshake c" and "t = EXTTYPE_KMREQ \<or> t = EXTTYPE_KMRSP"
    and "HasKM c \<Longrightarrow> CIFKeyMaterialExtension_Marshal (the (SRTKM c)) (Some []) = Inr d"
    and "HasKM c \<Longrightarrow> EncryptionField r = KLen (the (SRTKM c)) div 8"
  shows "loop_rest r ((if HasKM c then extension_bytes t d else []) @ rest) = loop_rest (take_KM c r) rest"
proof (cases "HasKM c")
  case True
  then have v: "valid_KM (the (SRTKM c))" "SRTKM c = Some (the (SRTKM c))"
    "merge_KM (the (SRTKM c)) zero_KM = the (SRTKM c)"
    using assms(1) by (auto simp: valid_Handshake_def valid_SRTKM_def split: option.splits)
  note x = extension_KM [OF v(1) assms(3) [OF True] assms(2) assms(4) [OF True]]
  have "loop_rest r (extension_bytes t d @ rest) = loop_rest (r\<lparr>HasKM := True, SRTKM := SRTKM c\<rparr>) rest"
    by (rule loop_rest_extension [OF refl]) (use x v in auto)
  then show ?thesis using True by (simp add: take_KM_def)
qed (simp add: take_KM_def)

lemma loop_rest_strings:
  assumes "valid_Handshake c"
  shows "loop_rest r ((if sends_SID c then string_extension EXTTYPE_SID (hsStreamId c) else []) @ rest)
      = loop_rest (take_SID c r) rest"
    and "loop_rest r ((if sends_CC c then string_extension EXTTYPE_CONGESTION (CongestionCtl c) else []) @ rest)
      = loop_rest (take_CC c r) rest"
proof -
  have sid: "length (hsStreamId c) \<le> 512" "hsStreamId c = [] \<or> last (hsStreamId c) \<noteq> CHR 0x00"
    and cc: "length (CongestionCtl c) \<le> 4" "CongestionCtl c = [] \<or> last (CongestionCtl c) \<noteq> CHR 0x00"
    using assms by (auto simp: valid_Handshake_def no_trailing_zero_def)
  show "loop_rest r ((if sends_SID c then string_extension EXTTYPE_SID (hsStreamId c) else []) @ rest)
      = loop_rest (take_SID c r) rest"
    using loop_rest_extension [OF refl _ _ extension_SID(1) [OF sid]] extension_SID(2) [OF sid]
    by (simp add: take_SID_def string_extension_def)
  show "loop_rest r ((if sends_CC c then string_extension EXTTYPE_CONGESTION (CongestionCtl c) else []) @ rest)
      = loop_rest (take_CC c r) rest"
    using loop_rest_extension [OF refl _ _ extension_CC(1) [OF cc]] extension_CC(2) [OF cc]
    by (simp add: take_CC_def string_extension_def)
qed

text \<open>The extensions of a valid message, and what the loop makes of them.\<close>

lemma extensions_valid:
  assumes "valid_Handshake c"
  obtains hs km where
    "CIFHandshake_extensions (c\<lparr>HasSID := sends_SID c, EncryptionField := e, ExtensionField := x, PeerIP := ip\<rparr>) =
       Inr ((if HasHS c then extension_bytes (if hsIsRequest c then EXTTYPE_HSREQ else EXTTYPE_HSRSP) hs else [])
         @ (if HasKM c then extension_bytes (if hsIsRequest c then EXTTYPE_KMREQ else EXTTYPE_KMRSP) km else [])
         @ (if sends_SID c then string_extension EXTTYPE_SID (hsStreamId c) else [])
         @ (if sends_CC c then string_extension EXTTYPE_CONGESTION (CongestionCtl c) else []))"
    "HasHS c \<Longrightarrow> CIFHandshakeExtension_Marshal (the (SRTHS c)) (Some []) = Inr hs"
    "HasKM c \<Longrightarrow> CIFKeyMaterialExtension_Marshal (the (SRTKM c)) (Some []) = Inr km"
proof -
  have hs: "HasHS c \<Longrightarrow> SRTHS c \<noteq> None" and km: "HasKM c \<Longrightarrow> SRTKM c \<noteq> None \<and> valid_KM (the (SRTKM c))"
    using assms by (auto simp: valid_Handshake_def valid_SRTKM_def split: option.splits)
  obtain h where h: "HasHS c \<Longrightarrow> CIFHandshakeExtension_Marshal (the (SRTHS c)) (Some []) = Inr h" "length h = 12"
    by (auto simp: CIFHandshakeExtension_Marshal_def)
  obtain k where k: "HasKM c \<Longrightarrow> CIFKeyMaterialExtension_Marshal (the (SRTKM c)) (Some []) = Inr k"
    using km.round_trip [of "the (SRTKM c)" "[]" zero_KM] km by auto
  show thesis
    by (rule that [of h k])
      (use h k hs km in \<open>auto simp: CIFHandshake_extensions_def extension_bytes_def sends_CC_def\<close>)
qed

lemma merge_Handshake_take:
  "merge_Handshake c c0 = take_CC c (take_SID c (take_KM c (take_HS c
    (c0\<lparr>hsVersion := hsVersion c, EncryptionField := sent_encryption c, ExtensionField := sent_extension c,
      InitialPacketSequenceNumber := InitialPacketSequenceNumber c,
      MaxTransmissionUnitSize := MaxTransmissionUnitSize c, MaxFlowWindowSize := MaxFlowWindowSize c,
      hsType := hsType c, SRTSocketId := SRTSocketId c, SynCookie := SynCookie c, PeerIP := PeerIP c\<rparr>))))"
  by (cases c0) (simp add: merge_Handshake_def take_HS_def take_KM_def take_SID_def take_CC_def)

lemma sent_extension_neq_0:
  "hsVersion c = 5 \<Longrightarrow> hsType c = HSTYPE_CONCLUSION \<Longrightarrow> HasHS c \<or> HasKM c \<or> sends_SID c \<or> sends_CC c \<Longrightarrow> sent_extension c \<noteq> 0"
  by (auto simp: sent_extension_def sends_CC_def)

lemma sent_encryption_valid:
  assumes "valid_Handshake c" and "hsVersion c = 5"
  shows "sent_encryption c = 0 \<or> sent_encryption c = 2 \<or> sent_encryption c = 3 \<or> sent_encryption c = 4"
proof (cases "HasKM c")
  case True
  then have "valid_KM (the (SRTKM c))"
    using assms(1) by (auto simp: valid_Handshake_def valid_SRTKM_def split: option.splits)
  then show ?thesis using True assms(2) by (auto simp: sent_encryption_def valid_KM_def)
next
  case False
  then show ?thesis using assms by (auto simp: sent_encryption_def valid_Handshake_def)
qed

lemma length_sent_fixed: "length ipb = 16 \<Longrightarrow> length (sent_fixed c ipb) = 48"
  by (simp add: sent_fixed_def)

lemma Unmarshal_sent:
  assumes v: "valid_Handshake c" and ip: "length ipb = 16" "IP_Unmarshal ipb = Inr (PeerIP c)"
    and ext: "CIFHandshake_extensions (c\<lparr>HasSID := sends_SID c, EncryptionField := e, ExtensionField := x, PeerIP := p\<rparr>) = Inr ext"
  shows "CIFHandshake_Unmarshal c0 (sent_fixed c ipb @ ext) = Inr (merge_Handshake c c0)"
proof -
  have wf: "wf_seq (InitialPacketSequenceNumber c)" using v by (simp add: valid_Handshake_def)
  let ?r = "c0\<lparr>hsVersion := hsVersion c, EncryptionField := sent_encryption c, ExtensionField := sent_extension c,
      InitialPacketSequenceNumber := InitialPacketSequenceNumber c,
      MaxTransmissionUnitSize := MaxTransmissionUnitSize c, MaxFlowWindowSize := MaxFlowWindowSize c,
      hsType := hsType c, SRTSocketId := SRTSocketId c, SynCookie := SynCookie c, PeerIP := PeerIP c\<rparr>"
  obtain hs km where e: "ext = (if HasHS c then extension_bytes (if hsIsRequest c then EXTTYPE_HSREQ else EXTTYPE_HSRSP) hs else [])
         @ (if HasKM c then extension_bytes (if hsIsRequest c then EXTTYPE_KMREQ else EXTTYPE_KMRSP) km else [])
         @ (if sends_SID c then string_extension EXTTYPE_SID (hsStreamId c) else [])
         @ (if sends_CC c then string_extension EXTTYPE_CONGESTION (CongestionCtl c) else [])"
    and hs: "HasHS c \<Longrightarrow> CIFHandshakeExtension_Marshal (the (SRTHS c)) (Some []) = Inr hs"
    and km: "HasKM c \<Longrightarrow> CIFKeyMaterialExtension_Marshal (the (SRTKM c)) (Some []) = Inr km"
    by (rule extensions_valid [OF v, where e = e and x = x and ip = p]) (use ext in simp)
  have ver: "HasHS c \<or> HasKM c \<or> sends_SID c \<or> sends_CC c \<Longrightarrow> hsVersion c = 5 \<and> hsType c = HSTYPE_CONCLUSION"
    using v by (auto simp: valid_Handshake_def sends_SID_def sends_CC_def)
  have "HasKM c \<Longrightarrow> EncryptionField (take_HS c ?r) = KLen (the (SRTKM c)) div 8"
    using ver by (simp add: take_HS_def sent_encryption_def)
  then have loop: "loop_rest ?r ext = Inr (merge_Handshake c c0)"
    unfolding e merge_Handshake_take
    using loop_rest_HS [OF v _ hs] loop_rest_KM [OF v _ km] loop_rest_strings [OF v]
      loop_rest_strings(2) [OF v, of _ "[]"]
    by (simp add: loop_rest_def [of _ "[]"])
  show ?thesis
  proof (cases "ext = []")
    case True
    then show ?thesis
      using loop fixed_sent_fixed [OF wf ip, of c0 "[]"] length_sent_fixed [OF ip(1), of c]
      by (simp add: CIFHandshake_Unmarshal_def loop_rest_def Let_def)
  next
    case False
    then have flag: "HasHS c \<or> HasKM c \<or> sends_SID c \<or> sends_CC c" using e by (auto split: if_splits)
    show ?thesis
      using False loop ver [OF flag] sent_extension_neq_0 [OF _ _ flag] sent_encryption_valid [OF v]
        fixed_sent_fixed [OF wf ip, of c0 ext] length_sent_fixed [OF ip(1), of c]
      by (auto simp: CIFHandshake_Unmarshal_def loop_rest_def Let_def)
  qed
qed

text \<open>The bytes of \<open>Marshal\<close>, without the message it leaves behind.\<close>

definition CIFHandshake_bytes :: "CIFHandshake \<Rightarrow> bytes option \<Rightarrow> (packet_error, bytes) result" where
  "CIFHandshake_bytes c w = map_sum id snd (CIFHandshake_Marshal c w)"

lemma Marshal_valid:
  assumes "valid_Handshake c"
  shows "\<exists>bs. CIFHandshake_Marshal c (Some w) =
      Inr (c\<lparr>HasSID := sends_SID c, EncryptionField := sent_encryption c, ExtensionField := sent_extension c\<rparr>, w @ bs)
    \<and> CIFHandshake_Unmarshal c0 bs = Inr (merge_Handshake c c0)"
proof -
  obtain ip where p: "PeerIP c = Some ip" "length ip = 16" "IP_isValid (Some ip)" "as_received ip = ip"
    using assms by (auto simp: valid_Handshake_def valid_peer_def split: option.splits)
  then obtain ipb where ipb: "IP_Marshal (PeerIP c) (replicate 16 0) = Inr (Some ip, ipb)" "length ipb = 16"
    "IP_Unmarshal ipb = Inr (PeerIP c)"
    using IP_round_trip_16 [of ip "replicate 16 0"] by auto
  let ?c = "c\<lparr>HasSID := sends_SID c, EncryptionField := sent_encryption c, ExtensionField := sent_extension c,
    PeerIP := PeerIP c\<rparr>"
  obtain ext where ext: "CIFHandshake_extensions ?c = Inr ext"
    by (rule extensions_valid [OF assms]) blast
  have "?c = c\<lparr>HasSID := sends_SID c, EncryptionField := sent_encryption c, ExtensionField := sent_extension c\<rparr>"
    by (cases c) simp
  then have "CIFHandshake_Marshal c (Some w) = Inr (?c, w @ sent_fixed c ipb @ ext)"
    using prepare_valid [OF assms] ipb(1) ext p(1)
    by (simp add: CIFHandshake_Marshal_def sent_fixed_def Let_def)
  then show ?thesis
    using Unmarshal_sent [OF assms ipb(2,3) ext] \<open>?c = _\<close> by auto
qed

interpretation hs: cif_codec CIFHandshake_bytes CIFHandshake_Unmarshal valid_Handshake merge_Handshake
proof
  fix c c0 w assume "valid_Handshake c"
  then show "\<exists>bs. CIFHandshake_bytes c (Some w) = Inr (w @ bs)
      \<and> CIFHandshake_Unmarshal c0 bs = Inr (merge_Handshake c c0)"
    using Marshal_valid [of c w c0] by (auto simp: CIFHandshake_bytes_def)
qed (simp add: CIFHandshake_bytes_def CIFHandshake_Marshal_def)

section \<open>Properties\<close>

text \<open>
  C37. A handshake message of the kinds the implementation sends survives the wire: the fixed fields, the
  encryption and extension fields as \<open>Marshal\<close> computes them, and every extension that was sent come
  back, whatever the variable it is read into held before.
\<close>

theorem Handshake_over_the_wire:
  assumes "valid_Handshake c" and "IsControlPacket (header p)" and "ControlType (header p) < 0x8000"
    and "commissioned p"
  shows "\<exists>p' bs q. pkt_MarshalCIF p (CIFHandshake_bytes c) = (None, p')
    \<and> pkt_Marshal p' (Some []) = Inr bs \<and> NewPacketFromData addr bs = Inr q
    \<and> header q = received_header (header p) (header (NewPacket addr))
    \<and> pkt_UnmarshalCIF q CIFHandshake_Unmarshal c0 = Inr (merge_Handshake c c0)"
  by (rule hs.wire_round_trip [OF assms])

definition hs_example :: CIFHandshake where
  "hs_example = zero_Handshake\<lparr>hsIsRequest := True, hsVersion := 5, EncryptionField := 2, ExtensionField := 7,
     InitialPacketSequenceNumber := Number_New 1000 MAX_SEQUENCENUMBER, MaxTransmissionUnitSize := 1500,
     MaxFlowWindowSize := 25600, hsType := HSTYPE_CONCLUSION, SRTSocketId := 7, SynCookie := 99,
     PeerIP := Some (net_IPv4 127 0 0 1), HasHS := True, HasKM := True, HasSID := True,
     SRTHS := Some zero_HSExt, SRTKM := Some km_value, hsStreamId := ''publish:/live''\<rparr>"

theorem Handshake_over_the_wire_witness:
  "\<exists>p' bs q. pkt_MarshalCIF control_packet (CIFHandshake_bytes hs_example) = (None, p')
    \<and> pkt_Marshal p' (Some []) = Inr bs \<and> NewPacketFromData None bs = Inr q
    \<and> header q = received_header (header control_packet) (header (NewPacket None))
    \<and> pkt_UnmarshalCIF q CIFHandshake_Unmarshal zero_Handshake = Inr (hs_example\<lparr>hsIsRequest := False\<rparr>)"
proof -
  have "valid_Handshake hs_example" by code_simp
  moreover have "merge_Handshake hs_example zero_Handshake = hs_example\<lparr>hsIsRequest := False\<rparr>" by code_simp
  ultimately show ?thesis
    using Handshake_over_the_wire [of hs_example control_packet None zero_Handshake]
    by (simp add: control_packet_def NewPacket_def commissioned_def)
qed

text \<open>
  C38. A conclusion that announces extensions and carries one to three bytes after the fixed part makes
  \<open>Unmarshal\<close> panic: the extension header is read without checking that four bytes are left. The
  listener parses such a message before any authentication.
\<close>

theorem Handshake_truncated_extension_panics:
  assumes "48 < length data" and "length data < 52" and "be32 data 20 = HSTYPE_CONCLUSION"
    and "be16 data 6 \<noteq> 0" and "be16 data 4 = 0 \<or> be16 data 4 = 2 \<or> be16 data 4 = 3 \<or> be16 data 4 = 4"
  shows "CIFHandshake_Unmarshal c data = Inl Panic"
  using assms
  by (auto simp: CIFHandshake_Unmarshal_def CIFHandshake_fixed_def Let_def CIFHandshake_loop.simps)

theorem Handshake_truncated_extension_panics_witness:
  "CIFHandshake_Unmarshal zero_Handshake
     (put32 5 @ put16 0 @ put16 1 @ replicate 12 0 @ put32 HSTYPE_CONCLUSION @ replicate 24 0 @ [0]) = Inl Panic"
  by (rule Handshake_truncated_extension_panics) (simp_all add: codec be32_drop)



end
