(* ===== verification/Seq_Number.thy ===== *)
theory Seq_Number
  imports Packet_CIF
begin

text \<open>
  Unbounded packet numbers behind the 31-bit sequence numbers. \<open>num k\<close> is the sequence number of the
  \<open>k\<close>-th packet of a stream; the comparisons of \<^verbatim>\<open>circular.Number\<close> agree with the order of the packet
  numbers as long as these are less than half the range apart. The congestion control is specified over
  packet numbers; this theory is what its refinement proofs use of the circular arithmetic.
\<close>

definition num :: "nat \<Rightarrow> Number" where
  "num k = Number_New (of_nat (k mod 2147483648)) 0x7FFFFFFF"

definition half :: nat where
  "half = 1073741823"

text \<open>Two packet numbers that the circular comparison can tell apart.\<close>

definition close :: "nat \<Rightarrow> nat \<Rightarrow> bool" where
  "close i j \<longleftrightarrow> i < j + half \<and> j < i + half"

lemma close_sym: "close i j \<longleftrightarrow> close j i"
  by (auto simp: close_def)

lemma close_refl [simp]: "close i i"
  by (simp add: close_def half_def)

lemma val_num: "val (num k) = k mod 2147483648"
proof -
  have "unat (of_nat (k mod 2147483648) :: u32) = k mod 2147483648"
    by (simp add: unsigned_of_nat take_bit_nat_eq_self)
  moreover from this have "(of_nat (k mod 2147483648) :: u32) \<le> 0x7FFFFFFF"
    by (simp add: word_le_nat_alt)
  ultimately show ?thesis by (simp add: num_def Number_New_def Let_def not_less [symmetric])
qed

lemma wf_seq_num [simp]: "wf_seq (num k)"
  by (simp add: num_def)

lemma wf_num [simp]: "wf_Number (num k)" "nmax (num k) = 0x7FFFFFFF" "nthreshold (num k) = 0x3FFFFFFF"
  using wf_seq_num [of k] by (auto simp: wf_seq_def wf_Number_def)

lemma same_domain_num [simp]: "same_domain (num i) (num j)"
  by (simp add: same_domain_def)

lemma num_eq_val: "wf_seq n \<Longrightarrow> val n = k mod 2147483648 \<Longrightarrow> n = num k"
proof (rule Number_eqI)
  show "wf_seq n \<Longrightarrow> same_domain n (num k)" by (auto simp: same_domain_def wf_seq_def wf_Number_def)
  show "val n = k mod 2147483648 \<Longrightarrow> nvalue n = nvalue (num k)" by (simp add: word_unat_eq_iff val_num)
qed

text \<open>Every sequence number is the number of some packet.\<close>

lemma num_val: "wf_seq n \<Longrightarrow> num (val n) = n"
  by (rule num_eq_val [symmetric]) (auto simp: wf_seq_def wf_Number_def word_le_nat_alt)

lemma modulus_num [simp]: "modulus (num k) = 2147483648"
  by (simp add: modulus_def)

lemma num_Inc [simp]: "Number_Inc (num k) = num (Suc k)"
proof (rule num_eq_val)
  show "wf_seq (Number_Inc (num k))"
    using wf_Inc [of "num k"] by (simp add: wf_seq_def Number_Inc_def)
  show "val (Number_Inc (num k)) = Suc k mod 2147483648"
    by (simp add: val_Inc val_num mod_Suc_eq)
qed

lemma num_Dec [simp]: "Number_Dec (num (Suc k)) = num k"
  using Dec_Inc [of "num k"] by simp

lemma mod_eq_close:
  assumes "(i :: nat) mod m = j mod m" and "i < j + m" and "j < i + m"
  shows "i = j"
proof (rule ccontr)
  assume "i \<noteq> j"
  then have "m dvd (max i j - min i j)" "0 < max i j - min i j" "max i j - min i j < m"
    using assms mod_eq_dvd_iff_nat [of "min i j" "max i j" m] by (auto simp: max_def min_def)
  then show False using nat_dvd_not_less by blast
qed

lemma num_inj: "num i = num j \<Longrightarrow> i < j + 2147483648 \<Longrightarrow> j < i + 2147483648 \<Longrightarrow> i = j"
  using mod_eq_close [of i 2147483648 j] val_num [of i] val_num [of j] by simp

lemma num_eq_iff: "close i j \<Longrightarrow> num i = num j \<longleftrightarrow> i = j"
  using num_inj [of i j] by (auto simp: close_def half_def)

lemma thr_num [simp]: "thr (num k) = half"
  by (simp add: half_def)

lemma mod_plus_close:
  assumes "d < m"
  shows "((i :: nat) + d) mod m = (if i mod m + d < m then i mod m + d else i mod m + d - m)"
proof -
  have x: "i mod m < m" using assms by simp
  have "(i + d) mod m = (i mod m + d) mod m" by (simp add: mod_add_left_eq)
  also have "\<dots> = (if i mod m + d < m then i mod m + d else i mod m + d - m)"
  proof -
    have "i mod m + d - m < m" using x assms by linarith
    then show ?thesis by (auto simp: mod_if [of "i mod m + d" m])
  qed
  finally show ?thesis .
qed

text \<open>\<open>y\<close> is \<open>d\<close> steps ahead of \<open>x\<close> on the circle of \<open>m\<close> numbers.\<close>

lemma ahead_less:
  assumes "(x :: nat) < m" "d < t" "2 * t < m" "y = (if x + d < m then x + d else x + d - m)"
  shows "(x < y \<and> y - x < t \<or> y < x \<and> t \<le> x - y) \<longleftrightarrow> 0 < d"
proof (cases "x + d < m")
  case True
  then have "y = x + d" using assms(4) by simp
  then show ?thesis using assms(2) by auto
next
  case False
  then have "y + m = x + d" using assms(4) by simp
  then show ?thesis using assms(1-3) by auto
qed

lemma ahead_not_less:
  assumes "(x :: nat) < m" "d < t" "2 * t < m" "y = (if x + d < m then x + d else x + d - m)"
  shows "\<not> (y < x \<and> x - y < t \<or> x < y \<and> t \<le> y - x)"
proof (cases "x + d < m")
  case True
  then have "y = x + d" using assms(4) by simp
  then show ?thesis using assms(2) by auto
next
  case False
  then have "y + m = x + d" using assms(4) by simp
  then show ?thesis using assms(1-3) by auto
qed

lemma ahead_gap:
  assumes "(x :: nat) < m" "d < t" "2 * t < m" "y = (if x + d < m then x + d else x + d - m)"
    "g = (if y < x then x - y else y - x)"
  shows "(if g = 0 \<or> g < t then g else m - g) = d"
proof (cases "x + d < m")
  case True
  then have "y = x + d" using assms(4) by simp
  then show ?thesis using assms(2,5) by auto
next
  case False
  then have "y + m = x + d" using assms(4) by simp
  then show ?thesis using assms(1-3,5) by auto
qed

lemma mod_ahead:
  "d < half \<Longrightarrow> (i + d) mod 2147483648 =
     (if i mod 2147483648 + d < 2147483648 then i mod 2147483648 + d else i mod 2147483648 + d - 2147483648)"
  by (rule mod_plus_close) (simp add: half_def)

lemma circle [simp]: "2 * half < 2147483648" "i mod 2147483648 < (2147483648 :: nat)"
  by (simp_all add: half_def)

lemma close_cases:
  assumes "close i j"
  obtains d where "j = i + d" "d < half" | d where "i = j + d" "0 < d" "d < half"
proof (cases "i \<le> j")
  case True
  show thesis by (rule that(1) [of "j - i"]) (use True assms in \<open>auto simp: close_def\<close>)
next
  case False
  show thesis by (rule that(2) [of "i - j"]) (use False assms in \<open>auto simp: close_def\<close>)
qed

lemma num_Lt:
  assumes "close i j"
  shows "Number_Lt (num i) (num j) \<longleftrightarrow> i < j"
  using assms
proof (cases rule: close_cases)
  case (1 d)
  show ?thesis
    unfolding Number_Lt_iff val_num thr_num 1(1) less_add_same_cancel1
    by (rule ahead_less [OF circle(2) 1(2) circle(1) mod_ahead [OF 1(2)]])
next
  case (2 d)
  have "\<not> i < j" using 2 by simp
  then show ?thesis
    using ahead_not_less [OF circle(2) 2(3) circle(1) mod_ahead [OF 2(3)], of j]
    unfolding Number_Lt_iff val_num thr_num 2(1) by blast
qed

lemma num_Lte: "close i j \<Longrightarrow> Number_Lte (num i) (num j) \<longleftrightarrow> i \<le> j"
  using num_Lt [of i j] num_eq_iff [of i j]
  by (auto simp: Number_Lte_iff le_less word_unat_eq_iff intro: Number_eqI)

lemma num_Gt: "close i j \<Longrightarrow> Number_Gt (num i) (num j) \<longleftrightarrow> j < i"
  using num_Lt [of j i] close_sym by (simp add: Number_Gt_Lt)

lemma num_Gte: "close i j \<Longrightarrow> Number_Gte (num i) (num j) \<longleftrightarrow> j \<le> i"
  using num_Gt [of i j] num_eq_iff [of i j]
  by (auto simp: Number_Gte_iff le_less intro: Number_eqI)

lemma num_Equals: "close i j \<Longrightarrow> Number_Equals (num i) (num j) \<longleftrightarrow> i = j"
  using num_eq_iff [of i j] by (auto simp: Number_Equals_def intro: Number_eqI)

lemma num_Distance:
  assumes "close i j"
  shows "unat (Number_Distance (num i) (num j)) = (if i \<le> j then j - i else i - j)"
proof -
  have d: "unat (Number_Distance (num i) (num j)) =
      (if gap (num i) (num j) = 0 \<or> gap (num i) (num j) < half then gap (num i) (num j)
       else 2147483648 - gap (num i) (num j))"
    using Number_Distance_val [of "num i" "num j", unfolded thr_num modulus_num]
    by (simp only: wf_num(1) same_domain_num simp_thms)
  have sym: "gap (num i) (num j) = gap (num j) (num i)" by (auto simp: gap_def)
  from assms show ?thesis
  proof (cases rule: close_cases)
    case (1 e)
    then have "(if i \<le> j then j - i else i - j) = e" by simp
    then show ?thesis
      unfolding d unfolding gap_def val_num 1(1)
      using ahead_gap [OF circle(2) 1(2) circle(1) mod_ahead [OF 1(2)] refl, of i] by (simp only:)
  next
    case (2 e)
    then have "(if i \<le> j then j - i else i - j) = e" by simp
    then show ?thesis
      unfolding d sym unfolding gap_def val_num 2(1)
      using ahead_gap [OF circle(2) 2(3) circle(1) mod_ahead [OF 2(3)] refl, of j] by (simp only:)
  qed
qed

text \<open>
  Every sequence number whose circular distance to a reference is below the threshold is the number of a
  unique packet near the reference.
\<close>

lemma nearest_representative:
  assumes "(x :: nat) < m" "t \<le> d" "g = (if d mod m < x then x - d mod m else d mod m - x)"
    "(if g < t then g else m - g) < t"
  shows "\<exists>i. i mod m = x \<and> i < d + t \<and> d < i + t"
proof -
  define q y where "q = d div m" and "y = d mod m"
  have d: "d = q * m + y" and y: "y < m" using assms(1) by (simp_all add: q_def y_def)
  have rep: "(j * m + x) mod m = x" for j using assms(1) by simp
  have g: "g = (if y < x then x - y else y - x)" using assms(3) by (simp add: y_def)
  consider "g < t" | "\<not> g < t" "y < x" | "\<not> g < t" "x \<le> y" by linarith
  then show ?thesis
  proof cases
    case 1
    then have "q * m + x < d + t \<and> d < q * m + x + t" using g d by (auto split: if_splits)
    then show ?thesis using rep by blast
  next
    case 2
    then have h: "m < x - y + t" "x < m" using assms(1,4) g by auto
    then have "q \<noteq> 0" using assms(2) d 2(2) by (intro notI) simp
    then obtain j where "q = Suc j" by (cases q) auto
    then have "j * m + x < d + t \<and> d < j * m + x + t" using d h 2(2) by auto
    then show ?thesis using rep by blast
  next
    case 3
    then have "m < y - x + t" using assms(4) g y by auto
    then have "Suc q * m + x < d + t \<and> d < Suc q * m + x + t" using d y 3(2) by auto
    then show ?thesis using rep by blast
  qed
qed

lemma num_near:
  assumes "wf_seq n" and "half \<le> d" and "unat (Number_Distance n (num d)) < half"
  shows "\<exists>i. n = num i \<and> close i d"
proof -
  let ?g = "gap n (num d)"
  have "unat (Number_Distance n (num d)) = (if ?g = 0 \<or> ?g < half then ?g else 2147483648 - ?g)"
    using Number_Distance_val [of n "num d"] assms(1) thr_num modulus_num
    by (metis num_val same_domain_num wf_num(1))
  then have dist: "(if ?g < half then ?g else 2147483648 - ?g) < half"
    using assms(3) by (auto split: if_splits)
  have g: "?g = (if d mod 2147483648 < val n then val n - d mod 2147483648 else d mod 2147483648 - val n)"
    by (simp add: gap_def val_num)
  have x: "val n < 2147483648" using val_num [of "val n"] num_val [OF assms(1)] by simp
  obtain i where "i mod 2147483648 = val n" "i < d + half" "d < i + half"
    using nearest_representative [OF x assms(2) g dist] by blast
  then show ?thesis
    using num_eq_val [OF assms(1), of i] by (intro exI [of _ i]) (simp add: close_def)
qed

lemmas num_compare = num_Lt num_Lte num_Gt num_Gte num_Equals num_eq_iff

end
