(* ===== verification/Float64.thy ===== *)
theory Float64
  imports Prelude Complex_Main
begin

text \<open>
  Go's \<open>float64\<close> as the rate estimates and statistics use it: IEEE 754 double precision, rounding to
  nearest with ties to even, with infinities and NaN. A finite value is the rational number it denotes;
  the sign of zero is not kept. Every operation rounds once (no fused multiply-add, as on amd64).

  Everything is executable, so that witnesses can compute with it.
\<close>

datatype float64 = Fin rat | PInf | NInf | NaN

section \<open>Rounding\<close>

definition pow2 :: "int \<Rightarrow> rat" where
  "pow2 q = (if 0 \<le> q then 2 ^ nat q else 1 / 2 ^ nat (- q))"

function ilog2 :: "int \<Rightarrow> int" where
  "ilog2 n = (if n \<le> 1 then 0 else 1 + ilog2 (n div 2))"
  by pat_completeness auto
termination by (relation "measure nat") auto

declare ilog2.simps [simp del]

text \<open>The exponent \<open>e\<close> with \<open>2 ^ e \<le> x < 2 ^ (e + 1)\<close> of a positive \<open>x\<close>.\<close>

definition exponent :: "rat \<Rightarrow> int" where
  "exponent x =
     (let (n, d) = quotient_of x;
          e = ilog2 n - ilog2 d
      in if x < pow2 e then e - 1 else e)"

definition round_even :: "rat \<Rightarrow> int" where
  "round_even m =
     (let f = \<lfloor>m\<rfloor>; r = m - of_int f
      in if r < 1 / 2 then f else if 1 / 2 < r then f + 1 else if even f then f else f + 1)"

definition round_pos :: "rat \<Rightarrow> float64" where
  "round_pos x =
     (let q = max (exponent x - 52) (-1074);
          v = of_int (round_even (x / pow2 q)) * pow2 q
      in if v \<ge> pow2 1024 then PInf else Fin v)"

definition round64 :: "rat \<Rightarrow> float64" where
  "round64 x =
     (if x = 0 then Fin 0
      else if 0 < x then round_pos x
      else case round_pos (- x) of Fin v \<Rightarrow> Fin (- v) | PInf \<Rightarrow> NInf | y \<Rightarrow> y)"

section \<open>Arithmetic\<close>

fun f_neg :: "float64 \<Rightarrow> float64" where
  "f_neg (Fin x) = Fin (- x)"
| "f_neg PInf = NInf"
| "f_neg NInf = PInf"
| "f_neg NaN = NaN"

fun f_add :: "float64 \<Rightarrow> float64 \<Rightarrow> float64" where
  "f_add (Fin x) (Fin y) = round64 (x + y)"
| "f_add NaN y = NaN"
| "f_add x NaN = NaN"
| "f_add PInf NInf = NaN"
| "f_add NInf PInf = NaN"
| "f_add PInf y = PInf"
| "f_add NInf y = NInf"
| "f_add x PInf = PInf"
| "f_add x NInf = NInf"

definition f_sub :: "float64 \<Rightarrow> float64 \<Rightarrow> float64" where
  "f_sub x y = f_add x (f_neg y)"

definition f_sign :: "float64 \<Rightarrow> int" where
  "f_sign x = (case x of Fin r \<Rightarrow> (if r < 0 then -1 else if 0 < r then 1 else 0)
     | PInf \<Rightarrow> 1 | NInf \<Rightarrow> -1 | NaN \<Rightarrow> 0)"

definition f_inf :: "int \<Rightarrow> float64" where
  "f_inf s = (if 0 < s then PInf else if s < 0 then NInf else NaN)"

definition f_mul :: "float64 \<Rightarrow> float64 \<Rightarrow> float64" where
  "f_mul x y =
     (case (x, y) of
        (Fin a, Fin b) \<Rightarrow> round64 (a * b)
      | (NaN, _) \<Rightarrow> NaN
      | (_, NaN) \<Rightarrow> NaN
      | _ \<Rightarrow> f_inf (f_sign x * f_sign y))"

definition f_div :: "float64 \<Rightarrow> float64 \<Rightarrow> float64" where
  "f_div x y =
     (case (x, y) of
        (Fin a, Fin b) \<Rightarrow> (if b = 0 then f_inf (f_sign x) else round64 (a / b))
      | (NaN, _) \<Rightarrow> NaN
      | (_, NaN) \<Rightarrow> NaN
      | (Fin a, _) \<Rightarrow> Fin 0
      | (_, Fin b) \<Rightarrow> f_inf (f_sign x * (if b = 0 then 1 else f_sign y))
      | _ \<Rightarrow> NaN)"

text \<open>Comparisons: every comparison with NaN is false.\<close>

fun f_lt :: "float64 \<Rightarrow> float64 \<Rightarrow> bool" where
  "f_lt (Fin x) (Fin y) = (x < y)"
| "f_lt (Fin x) PInf = True"
| "f_lt NInf (Fin y) = True"
| "f_lt NInf PInf = True"
| "f_lt _ _ = False"

definition f_eq :: "float64 \<Rightarrow> float64 \<Rightarrow> bool" where
  "f_eq x y \<longleftrightarrow> x \<noteq> NaN \<and> x = y"

section \<open>Conversions\<close>

definition f_of_int :: "int \<Rightarrow> float64" where
  "f_of_int i = round64 (of_int i)"

definition f_of_u64 :: "u64 \<Rightarrow> float64" where
  "f_of_u64 w = f_of_int (uint w)"

text \<open>
  Conversion to an integer discards the fraction. For a value out of range the result is
  implementation-defined in Go; the model returns \<open>2 ^ 63\<close>, the pattern amd64 yields.
\<close>

definition rat_trunc :: "rat \<Rightarrow> int" where
  "rat_trunc x = (if 0 \<le> x then \<lfloor>x\<rfloor> else \<lceil>x\<rceil>)"

definition f_to_u64 :: "float64 \<Rightarrow> u64" where
  "f_to_u64 x =
     (case x of
        Fin r \<Rightarrow> (let i = rat_trunc r in if 0 \<le> i \<and> i < 2 ^ 64 then of_int i else 2 ^ 63)
      | _ \<Rightarrow> 2 ^ 63)"

definition f_to_u32 :: "float64 \<Rightarrow> u32" where
  "f_to_u32 x =
     (case x of
        Fin r \<Rightarrow> (let i = rat_trunc r in if 0 \<le> i \<and> i < 2 ^ 32 then of_int i else 0)
      | _ \<Rightarrow> 0)"

abbreviation f64 :: "rat \<Rightarrow> float64" where
  "f64 x \<equiv> Fin x"

end
