(* ===== verification/Live_Send.thy ===== *)
theory Live_Send
  imports Seq_Number Float64
begin

text \<open>
  The sending half of the live congestion control (\<^verbatim>\<open>congestion/live/send.go\<close>, statistics in
  \<^verbatim>\<open>congestion/congestion.go\<close>).

  The state is the record \<open>sender\<close>; each method is a function on it. \<open>deliver\<close> is a callback of the
  connection that may rewrite the packet it is given and the connection's own state: a function
  \<open>pkt \<Rightarrow> 'c \<Rightarrow> pkt \<times> 'c\<close>. \<open>Tick\<close> takes the lock three times; each critical section is a definition of
  its own and \<open>Tick\<close> is their composition, so interleavings with the other methods are sequences of
  these steps.
\<close>

section \<open>State\<close>

record SendStats =
  sPkt :: u64
  sByte :: u64
  sPktUnique :: u64
  sByteUnique :: u64
  sPktLoss :: u64
  sByteLoss :: u64
  sPktRetrans :: u64
  sByteRetrans :: u64
  sUsSndDuration :: u64
  sPktDrop :: u64
  sByteDrop :: u64
  sPktBuf :: u64
  sByteBuf :: u64
  sMsBuf :: u64
  sPktFlightSize :: u64
  sUsPktSndPeriod :: float64
  sBytePayload :: u64
  sMbpsEstimatedInputBandwidth :: float64
  sMbpsEstimatedSentBandwidth :: float64
  sPktLossRate :: float64

definition zero_SendStats :: SendStats where
  "zero_SendStats = \<lparr>sPkt = 0, sByte = 0, sPktUnique = 0, sByteUnique = 0, sPktLoss = 0, sByteLoss = 0,
     sPktRetrans = 0, sByteRetrans = 0, sUsSndDuration = 0, sPktDrop = 0, sByteDrop = 0, sPktBuf = 0,
     sByteBuf = 0, sMsBuf = 0, sPktFlightSize = 0, sUsPktSndPeriod = Fin 0, sBytePayload = 0,
     sMbpsEstimatedInputBandwidth = Fin 0, sMbpsEstimatedSentBandwidth = Fin 0, sPktLossRate = Fin 0\<rparr>"

record send_rate =
  sr_period :: u64
  sr_last :: u64
  sr_bytes :: u64
  sr_bytesSent :: u64
  sr_bytesRetrans :: u64
  sr_estimatedInputBW :: float64
  sr_estimatedSentBW :: float64
  sr_pktLossRate :: float64

record SendConfig =
  scInitialSequenceNumber :: Number
  scDropThreshold :: u64
  scMaxBW :: int
  scInputBW :: int
  scMinInputBW :: int
  scOverheadBW :: int

record sender =
  nextSequenceNumber :: Number
  dropThreshold :: u64
  sndPacketList :: "pkt list"
  lossList :: "pkt list"
  sndAvgPayloadSize :: float64
  pktSndPeriod :: float64
  maxBW :: float64
  inputBW :: float64
  overheadBW :: float64
  sstat :: SendStats
  sndProbeTime :: u64
  srate :: send_rate

text \<open>\<^verbatim>\<open>(avgPayloadSize + 16) * 1000000 / maxBW\<close>\<close>

definition snd_period :: "float64 \<Rightarrow> float64 \<Rightarrow> float64" where
  "snd_period avg bw = f_div (f_mul (f_add avg (Fin 16)) (Fin 1000000)) bw"

definition NewSender :: "SendConfig \<Rightarrow> sender" where
  "NewSender config =
     \<lparr>nextSequenceNumber = scInitialSequenceNumber config,
      dropThreshold = scDropThreshold config,
      sndPacketList = [], lossList = [],
      sndAvgPayloadSize = Fin 1456,
      pktSndPeriod = snd_period (Fin 1456) (Fin (128 * 1024 * 1024)),
      maxBW = Fin (128 * 1024 * 1024),
      inputBW = f_of_int (scInputBW config),
      overheadBW = f_of_int (scOverheadBW config),
      sstat = zero_SendStats,
      sndProbeTime = 0,
      srate = \<lparr>sr_period = 1000000, sr_last = 0, sr_bytes = 0, sr_bytesSent = 0, sr_bytesRetrans = 0,
        sr_estimatedInputBW = Fin 0, sr_estimatedSentBW = Fin 0, sr_pktLossRate = Fin 0\<rparr>\<rparr>"

abbreviation seqno :: "pkt \<Rightarrow> Number" where
  "seqno p \<equiv> PacketSequenceNumber (header p)"

abbreviation tsbpd :: "pkt \<Rightarrow> u64" where
  "tsbpd p \<equiv> PktTsbpdTime (header p)"

text \<open>\<^verbatim>\<open>x * 8 / 1024 / 1024\<close>\<close>

definition to_mbps :: "float64 \<Rightarrow> float64" where
  "to_mbps x = f_div (f_div (f_mul x (Fin 8)) (Fin 1024)) (Fin 1024)"

definition sender_Stats :: "sender \<Rightarrow> SendStats \<times> sender" where
  "sender_Stats s =
     (let st = (sstat s)\<lparr>sUsPktSndPeriod := pktSndPeriod s,
                        sBytePayload := f_to_u64 (sndAvgPayloadSize s), sMsBuf := 0\<rparr>;
          st = (if lossList s \<noteq> []
                then st\<lparr>sMsBuf := (tsbpd (last (lossList s)) - tsbpd (hd (lossList s))) div 1000\<rparr> else st);
          st = st\<lparr>sMbpsEstimatedInputBandwidth := to_mbps (sr_estimatedInputBW (srate s)),
                 sMbpsEstimatedSentBandwidth := to_mbps (sr_estimatedSentBW (srate s)),
                 sPktLossRate := sr_pktLossRate (srate s)\<rparr>
      in (st, s\<lparr>sstat := st\<rparr>))"

definition sender_Flush :: "sender \<Rightarrow> sender" where
  "sender_Flush s = s\<lparr>sndPacketList := [], lossList := []\<rparr>"

section \<open>Push\<close>

definition sender_Push :: "sender \<Rightarrow> pkt option \<Rightarrow> sender" where
  "sender_Push s po =
     (case po of
        None \<Rightarrow> s
      | Some p \<Rightarrow>
          (let h = (header p)\<lparr>PacketSequenceNumber := nextSequenceNumber s,
                             PacketPositionFlag := SinglePacket, OrderFlag := False, MessageNumber := 1\<rparr>;
               pktLen = pkt_Len p;
               s = s\<lparr>nextSequenceNumber := Number_Inc (nextSequenceNumber s),
                     sstat := (sstat s)\<lparr>sPktBuf := sPktBuf (sstat s) + 1,
                                       sByteBuf := sByteBuf (sstat s) + pktLen\<rparr>,
                     srate := (srate s)\<lparr>sr_bytes := sr_bytes (srate s) + pktLen\<rparr>\<rparr>;
               h = h\<lparr>Timestamp := ucast (PktTsbpdTime h AND ucast MAX_TIMESTAMP)\<rparr>;
               probe = Number_Val (PacketSequenceNumber h) AND 0xF;
               s = (if probe = 0 then s\<lparr>sndProbeTime := PktTsbpdTime h\<rparr> else s);
               h = (if probe \<noteq> 0 \<and> probe = 1 then h\<lparr>PktTsbpdTime := sndProbeTime s\<rparr> else h);
               s = s\<lparr>sndPacketList := sndPacketList s @ [p\<lparr>header := h\<rparr>]\<rparr>
           in s\<lparr>sstat := (sstat s)\<lparr>sPktFlightSize := of_nat (length (sndPacketList s))\<rparr>\<rparr>))"

section \<open>Tick\<close>

text \<open>\<^verbatim>\<open>0.875*avg + 0.125*float64(pktLen)\<close>\<close>

definition avg_payload :: "float64 \<Rightarrow> u64 \<Rightarrow> float64" where
  "avg_payload avg pktLen = f_add (f_mul (Fin (7 / 8)) avg) (f_mul (Fin (1 / 8)) (f_of_u64 pktLen))"

definition count_sent :: "sender \<Rightarrow> pkt \<Rightarrow> sender" where
  "count_sent s p =
     (let st = sstat s; pktLen = pkt_Len p in
      s\<lparr>sstat := st\<lparr>sPkt := sPkt st + 1, sPktUnique := sPktUnique st + 1,
                   sByte := sByte st + pktLen, sByteUnique := sByteUnique st + pktLen,
                   sUsSndDuration := sUsSndDuration st + f_to_u64 (pktSndPeriod s)\<rparr>,
        sndAvgPayloadSize := avg_payload (sndAvgPayloadSize s) pktLen,
        srate := (srate s)\<lparr>sr_bytesSent := sr_bytesSent (srate s) + pktLen\<rparr>\<rparr>)"

text \<open>
  The loop over the packet list stops at the first packet that is not ripe. It returns the packets that
  were delivered, as \<open>deliver\<close> left them, and the rest.
\<close>

fun send_ripe ::
  "(pkt \<Rightarrow> 'c \<Rightarrow> pkt \<times> 'c) \<Rightarrow> u64 \<Rightarrow> pkt list \<Rightarrow> sender \<Rightarrow> 'c \<Rightarrow> pkt list \<times> pkt list \<times> sender \<times> 'c" where
  "send_ripe deliver now [] s c = ([], [], s, c)"
| "send_ripe deliver now (p # ps) s c =
     (if tsbpd p \<le> now then
        let s = count_sent s p;
            (p, c) = deliver p c;
            (sent, rest, s, c) = send_ripe deliver now ps s c
        in (p # sent, rest, s, c)
      else ([], p # ps, s, c))"

definition sender_Tick_send :: "(pkt \<Rightarrow> 'c \<Rightarrow> pkt \<times> 'c) \<Rightarrow> u64 \<Rightarrow> sender \<Rightarrow> 'c \<Rightarrow> sender \<times> 'c" where
  "sender_Tick_send deliver now s c =
     (let (sent, rest, s, c) = send_ripe deliver now (sndPacketList s) s c
      in (s\<lparr>lossList := lossList s @ sent, sndPacketList := rest\<rparr>, c))"

definition too_old :: "sender \<Rightarrow> u64 \<Rightarrow> pkt \<Rightarrow> bool" where
  "too_old s now p \<longleftrightarrow> tsbpd p + dropThreshold s \<le> now"

definition count_drop :: "pkt \<Rightarrow> SendStats \<Rightarrow> SendStats" where
  "count_drop p st = st\<lparr>sPktDrop := sPktDrop st + 1, sPktLoss := sPktLoss st + 1,
     sByteDrop := sByteDrop st + pkt_Len p, sByteLoss := sByteLoss st + pkt_Len p\<rparr>"

definition count_removed :: "pkt \<Rightarrow> SendStats \<Rightarrow> SendStats" where
  "count_removed p st = st\<lparr>sPktBuf := sPktBuf st - 1, sByteBuf := sByteBuf st - pkt_Len p\<rparr>"

text \<open>
  Dropped and acknowledged packets are decommissioned; nothing refers to them afterwards, so they are
  simply not part of the new list.
\<close>

definition sender_Tick_drop :: "u64 \<Rightarrow> sender \<Rightarrow> sender" where
  "sender_Tick_drop now s =
     (let removeList = filter (too_old s now) (lossList s);
          st = fold count_drop removeList (sstat s);
          st = fold count_removed removeList st
      in s\<lparr>sstat := st, lossList := filter (\<lambda>p. \<not> too_old s now p) (lossList s)\<rparr>)"

text \<open>\<^verbatim>\<open>float64(bytes) / (float64(tdiff) / 1000 / 1000)\<close>\<close>

definition per_second :: "u64 \<Rightarrow> u64 \<Rightarrow> float64" where
  "per_second n tdiff = f_div (f_of_u64 n) (f_div (f_div (f_of_u64 tdiff) (Fin 1000)) (Fin 1000))"

definition percentage :: "u64 \<Rightarrow> u64 \<Rightarrow> float64" where
  "percentage a b = f_mul (f_div (f_of_u64 a) (f_of_u64 b)) (Fin 100)"

definition sender_Tick_rate :: "u64 \<Rightarrow> sender \<Rightarrow> sender" where
  "sender_Tick_rate now s =
     (let r = srate s; tdiff = now - sr_last r in
      if tdiff > sr_period r then
        s\<lparr>srate := r\<lparr>sr_estimatedInputBW := per_second (sr_bytes r) tdiff,
                    sr_estimatedSentBW := per_second (sr_bytesSent r) tdiff,
                    sr_pktLossRate := (if sr_bytesSent r \<noteq> 0
                      then percentage (sr_bytesRetrans r) (sr_bytesSent r) else Fin 0),
                    sr_bytes := 0, sr_bytesSent := 0, sr_bytesRetrans := 0, sr_last := now\<rparr>\<rparr>
      else s)"

definition sender_Tick :: "(pkt \<Rightarrow> 'c \<Rightarrow> pkt \<times> 'c) \<Rightarrow> u64 \<Rightarrow> sender \<Rightarrow> 'c \<Rightarrow> sender \<times> 'c" where
  "sender_Tick deliver now s c =
     (let (s, c) = sender_Tick_send deliver now s c
      in (sender_Tick_rate now (sender_Tick_drop now s), c))"

section \<open>ACK and NAK\<close>

definition sender_ACK :: "Number \<Rightarrow> sender \<Rightarrow> sender" where
  "sender_ACK sequenceNumber s =
     (let removeList = takeWhile (\<lambda>p. Number_Lt (seqno p) sequenceNumber) (lossList s)
      in s\<lparr>sstat := fold count_removed removeList (sstat s),
           lossList := dropWhile (\<lambda>p. Number_Lt (seqno p) sequenceNumber) (lossList s),
           pktSndPeriod := snd_period (sndAvgPayloadSize s) (maxBW s)\<rparr>)"

definition count_retrans :: "sender \<Rightarrow> pkt \<Rightarrow> sender" where
  "count_retrans s p =
     (let st = sstat s; pktLen = pkt_Len p in
      s\<lparr>sstat := st\<lparr>sPktRetrans := sPktRetrans st + 1, sPkt := sPkt st + 1, sPktLoss := sPktLoss st + 1,
                   sByteRetrans := sByteRetrans st + pktLen, sByte := sByte st + pktLen,
                   sByteLoss := sByteLoss st + pktLen\<rparr>,
        sndAvgPayloadSize := avg_payload (sndAvgPayloadSize s) pktLen,
        srate := (srate s)\<lparr>sr_bytesSent := sr_bytesSent (srate s) + pktLen,
                          sr_bytesRetrans := sr_bytesRetrans (srate s) + pktLen\<rparr>\<rparr>)"

definition mark_retransmitted :: "pkt \<Rightarrow> pkt" where
  "mark_retransmitted p = p\<lparr>header := (header p)\<lparr>RetransmittedPacketFlag := True\<rparr>\<rparr>"

text \<open>
  The inner loop over the ranges, for one packet. An odd list makes \<^verbatim>\<open>sequenceNumbers[i+1]\<close> panic
  (\<open>None\<close>) as soon as the last number is not above the packet's.
\<close>

fun nak_ranges ::
  "(pkt \<Rightarrow> 'c \<Rightarrow> pkt \<times> 'c) \<Rightarrow> Number list \<Rightarrow> pkt \<Rightarrow> sender \<Rightarrow> 'c \<Rightarrow> (pkt \<times> sender \<times> 'c) option" where
  "nak_ranges deliver [] p s c = Some (p, s, c)"
| "nak_ranges deliver [a] p s c = (if Number_Gte (seqno p) a then None else Some (p, s, c))"
| "nak_ranges deliver (a # b # l) p s c =
     (if Number_Gte (seqno p) a \<and> Number_Lte (seqno p) b then
        let s = count_retrans s p; (p, c) = deliver (mark_retransmitted p) c
        in nak_ranges deliver l p s c
      else nak_ranges deliver l p s c)"

text \<open>The outer loop runs from the back of the loss list; the list argument is reversed.\<close>

fun nak_packets ::
  "(pkt \<Rightarrow> 'c \<Rightarrow> pkt \<times> 'c) \<Rightarrow> Number list \<Rightarrow> pkt list \<Rightarrow> sender \<Rightarrow> 'c \<Rightarrow> (pkt list \<times> sender \<times> 'c) option" where
  "nak_packets deliver l [] s c = Some ([], s, c)"
| "nak_packets deliver l (p # ps) s c =
     (case nak_ranges deliver l p s c of
        None \<Rightarrow> None
      | Some (p, s, c) \<Rightarrow>
          (case nak_packets deliver l ps s c of
             None \<Rightarrow> None
           | Some (ps, s, c) \<Rightarrow> Some (p # ps, s, c)))"

definition sender_NAK ::
  "(pkt \<Rightarrow> 'c \<Rightarrow> pkt \<times> 'c) \<Rightarrow> Number list \<Rightarrow> sender \<Rightarrow> 'c \<Rightarrow> (sender \<times> 'c) option" where
  "sender_NAK deliver sequenceNumbers s c =
     (if sequenceNumbers = [] then Some (s, c)
      else case nak_packets deliver sequenceNumbers (rev (lossList s)) s c of
             None \<Rightarrow> None
           | Some (ps, s, c) \<Rightarrow> Some (s\<lparr>lossList := rev ps\<rparr>, c))"

definition sender_SetDropThreshold :: "u64 \<Rightarrow> sender \<Rightarrow> sender" where
  "sender_SetDropThreshold threshold s = s\<lparr>dropThreshold := threshold\<rparr>"

section \<open>Specification over packet numbers\<close>

text \<open>
  What the sender promises, over unbounded packet numbers: the number of the next packet, the packets that
  were sent and are neither acknowledged nor dropped, and the packets that wait for their time.
\<close>

record send_spec =
  next_no :: nat
  unacked :: "nat list"
  queued :: "nat list"

definition spec_push :: "send_spec \<Rightarrow> send_spec" where
  "spec_push a = a\<lparr>next_no := Suc (next_no a), queued := queued a @ [next_no a]\<rparr>"

definition spec_send :: "nat \<Rightarrow> send_spec \<Rightarrow> send_spec" where
  "spec_send k a = a\<lparr>unacked := unacked a @ take k (queued a), queued := drop k (queued a)\<rparr>"

definition spec_ack :: "nat \<Rightarrow> send_spec \<Rightarrow> send_spec" where
  "spec_ack n a = a\<lparr>unacked := filter (\<lambda>i. n \<le> i) (unacked a)\<rparr>"

text \<open>
  Packets are numbered in order without gaps while they wait, and everything in the buffer is less than
  half the sequence number range behind the next number.
\<close>

definition spec_ok :: "send_spec \<Rightarrow> bool" where
  "spec_ok a \<longleftrightarrow> length (queued a) \<le> next_no a \<and> queued a = [next_no a - length (queued a)..<next_no a]
     \<and> sorted_wrt (<) (unacked a @ queued a)
     \<and> (\<forall>i \<in> set (unacked a @ queued a). i < next_no a \<and> next_no a < i + half)"

definition spec_room :: "send_spec \<Rightarrow> bool" where
  "spec_room a \<longleftrightarrow> (\<forall>i \<in> set (unacked a @ queued a). Suc (next_no a) < i + half)"

definition represents :: "sender \<Rightarrow> send_spec \<Rightarrow> bool" where
  "represents s a \<longleftrightarrow> nextSequenceNumber s = num (next_no a)
     \<and> map seqno (lossList s) = map num (unacked a) \<and> map seqno (sndPacketList s) = map num (queued a)"

definition snd_buffer :: "sender \<Rightarrow> pkt list" where
  "snd_buffer s = lossList s @ sndPacketList s"

text \<open>The buffer statistics count the buffered packets; every buffered packet has its payload.\<close>

definition buffer_counted :: "sender \<Rightarrow> bool" where
  "buffer_counted s \<longleftrightarrow> sPktBuf (sstat s) = of_nat (length (snd_buffer s))
     \<and> sByteBuf (sstat s) = sum_list (map pkt_Len (snd_buffer s))
     \<and> (\<forall>p \<in> set (snd_buffer s). commissioned p)"

lemma half_pos: "2 < half"
  by (simp add: half_def)

lemma spec_ok_push: "spec_ok a \<Longrightarrow> spec_room a \<Longrightarrow> spec_ok (spec_push a)"
  using half_pos by (auto simp: spec_ok_def spec_push_def spec_room_def sorted_wrt_append Suc_diff_le less_SucI)

lemma spec_ok_send: "spec_ok a \<Longrightarrow> spec_ok (spec_send k a)"
proof -
  assume a: "spec_ok a"
  let ?n = "next_no a" and ?m = "length (queued a)"
  have q: "queued a = [?n - ?m..<?n]" and m: "?m \<le> ?n"
    using a by (auto simp: spec_ok_def)
  have "drop k (queued a) = [?n - ?m + k..<?n]"
    by (subst q) (rule drop_upt)
  also have "\<dots> = [?n - (?m - k)..<?n]"
    using m by (cases "k \<le> ?m") auto
  finally have d: "drop k (queued a) = [?n - length (drop k (queued a))..<?n]"
    by simp
  have "unacked (spec_send k a) @ queued (spec_send k a) = unacked a @ queued a"
    by (simp add: spec_send_def)
  moreover have "queued (spec_send k a) = drop k (queued a)" "next_no (spec_send k a) = ?n"
    by (simp_all add: spec_send_def)
  ultimately show ?thesis
    using a d unfolding spec_ok_def by simp
qed

lemma spec_ok_filter: "spec_ok a \<Longrightarrow> spec_ok (a\<lparr>unacked := filter P (unacked a)\<rparr>)"
  by (auto simp: spec_ok_def sorted_wrt_append sorted_wrt_filter_same)

lemma spec_ok_ack: "spec_ok a \<Longrightarrow> spec_ok (spec_ack n a)"
  by (simp add: spec_ack_def spec_ok_filter)

section \<open>The delivery callback\<close>

text \<open>
  The sender relies on its callback to leave the sequence number, the delivery time and the payload's
  length of a packet alone and not to decommission it.
\<close>

definition same_packet :: "pkt \<Rightarrow> pkt \<Rightarrow> bool" where
  "same_packet p q \<longleftrightarrow> seqno q = seqno p \<and> tsbpd q = tsbpd p \<and> pkt_Len q = pkt_Len p
     \<and> (commissioned p \<longrightarrow> commissioned q)"

lemma same_packet_refl [simp]: "same_packet p p"
  by (simp add: same_packet_def)

lemma same_packet_trans: "same_packet p q \<Longrightarrow> same_packet q r \<Longrightarrow> same_packet p r"
  by (auto simp: same_packet_def)

lemma same_packet_mark [simp]: "same_packet p (mark_retransmitted p)"
  by (simp add: same_packet_def mark_retransmitted_def pkt_Len_def pkt_Data_def commissioned_def)

text \<open>Two states of the sender that differ only in rates and in the counters of sent packets.\<close>

definition same_buffer :: "sender \<Rightarrow> sender \<Rightarrow> bool" where
  "same_buffer s t \<longleftrightarrow> nextSequenceNumber t = nextSequenceNumber s \<and> sndPacketList t = sndPacketList s
     \<and> lossList t = lossList s \<and> sPktBuf (sstat t) = sPktBuf (sstat s)
     \<and> sByteBuf (sstat t) = sByteBuf (sstat s) \<and> dropThreshold t = dropThreshold s"

lemma same_buffer_refl [simp]: "same_buffer s s"
  by (simp add: same_buffer_def)

lemma same_buffer_trans: "same_buffer s t \<Longrightarrow> same_buffer t u \<Longrightarrow> same_buffer s u"
  by (simp add: same_buffer_def)

lemma same_buffer_count [simp]: "same_buffer s (count_sent s p)" "same_buffer s (count_retrans s p)"
  by (simp_all add: same_buffer_def count_sent_def count_retrans_def Let_def)

lemma same_packets_map:
  assumes "list_all2 same_packet ps qs"
  shows "map seqno qs = map seqno ps" "map pkt_Len qs = map pkt_Len ps" "length qs = length ps"
    "(\<forall>p \<in> set ps. commissioned p) \<Longrightarrow> (\<forall>p \<in> set qs. commissioned p)"
  using assms by (induction rule: list_all2_induct) (auto simp: same_packet_def)

lemma nak_ranges_total: "even (length l) \<Longrightarrow> nak_ranges deliver l p s c \<noteq> None"
  by (induction deliver l p s c rule: nak_ranges.induct) (auto simp: Let_def split: prod.splits)

lemma nak_packets_total: "even (length l) \<Longrightarrow> nak_packets deliver l ps s c \<noteq> None"
proof (induction ps arbitrary: s c)
  case (Cons p ps)
  obtain q t d where "nak_ranges deliver l p s c = Some (q, t, d)"
    using nak_ranges_total [OF Cons.prems, of deliver p s c] by auto
  then show ?case using Cons.IH [OF Cons.prems, of t d] by (auto split: option.split)
qed simp

lemma sender_NAK_total: "even (length l) \<Longrightarrow> sender_NAK deliver l s c \<noteq> None"
  using nak_packets_total [of l deliver "rev (lossList s)" s c] by (auto simp: sender_NAK_def split: option.splits)

locale send_callback =
  fixes deliver :: "pkt \<Rightarrow> 'c \<Rightarrow> pkt \<times> 'c"
  assumes deliver_same: "same_packet p (fst (deliver p c))"
begin

lemma send_ripe_sent:
  assumes "send_ripe deliver now ps s c = (sent, rest, t, c')"
  shows "list_all2 same_packet (takeWhile (\<lambda>p. tsbpd p \<le> now) ps) sent"
    "rest = dropWhile (\<lambda>p. tsbpd p \<le> now) ps" "same_buffer s t"
  using assms
proof (induction ps arbitrary: s c sent rest t c')
  case (Cons p ps)
  { case 1 then show ?case
      using Cons.IH(1) deliver_same [of p c] by (auto simp: Let_def split: if_splits prod.splits) }
  { case 2 then show ?case
      using Cons.IH(2) by (auto simp: Let_def split: if_splits prod.splits) }
  { case 3 then show ?case
      using Cons.IH(3) by (auto simp: Let_def split: if_splits prod.splits
        intro: same_buffer_trans [OF same_buffer_count(1) [of _ p]]) }
qed auto

lemma nak_ranges_same:
  "nak_ranges deliver l p s c = Some (q, t, c') \<Longrightarrow> same_packet p q \<and> same_buffer s t"
proof (induction deliver\<equiv>deliver l p s c rule: nak_ranges.induct)
  case (3 a b l p s c)
  show ?case
  proof (cases "Number_Gte (seqno p) a \<and> Number_Lte (seqno p) b")
    case True
    obtain p' c1 where d: "deliver (mark_retransmitted p) c = (p', c1)" by fastforce
    have "same_packet p p'"
      using deliver_same [of "mark_retransmitted p" c] d same_packet_trans same_packet_mark by (metis fst_conv)
    moreover have "same_packet p' q \<and> same_buffer (count_retrans s p) t"
      using 3 True d by simp
    ultimately show ?thesis
      using same_packet_trans same_buffer_trans same_buffer_count(2) by blast
  qed (use 3 in \<open>auto split: if_splits\<close>)
qed (auto split: if_splits)

lemma nak_packets_same:
  "nak_packets deliver l ps s c = Some (qs, t, c') \<Longrightarrow> list_all2 same_packet ps qs \<and> same_buffer s t"
proof (induction ps arbitrary: s c qs t c')
  case (Cons p ps)
  then show ?case
    by (auto split: option.splits dest!: nak_ranges_same) (blast intro: same_buffer_trans)
qed auto

end

section \<open>The operations keep the specification\<close>

lemma Push_effect:
  "\<exists>q. sndPacketList (sender_Push s (Some p)) = sndPacketList s @ [q]
     \<and> seqno q = nextSequenceNumber s \<and> pkt_Data q = pkt_Data p \<and> (commissioned q \<longleftrightarrow> commissioned p)"
  by (simp add: sender_Push_def Let_def pkt_Data_def commissioned_def)

lemma Push_fields [simp]:
  "nextSequenceNumber (sender_Push s (Some p)) = Number_Inc (nextSequenceNumber s)"
  "lossList (sender_Push s (Some p)) = lossList s"
  "sPktBuf (sstat (sender_Push s (Some p))) = sPktBuf (sstat s) + 1"
  "sByteBuf (sstat (sender_Push s (Some p))) = sByteBuf (sstat s) + pkt_Len p"
  by (simp_all add: sender_Push_def Let_def)

lemma represents_Push: "represents s a \<Longrightarrow> represents (sender_Push s (Some p)) (spec_push a)"
  using Push_effect [of s p] by (auto simp: represents_def spec_push_def)

lemma buffer_counted_Push:
  "buffer_counted s \<Longrightarrow> commissioned p \<Longrightarrow> buffer_counted (sender_Push s (Some p))"
  using Push_effect [of s p] by (auto simp: buffer_counted_def snd_buffer_def pkt_Len_def)

lemma fold_count_removed [simp]:
  "sPktBuf (fold count_removed ps st) = sPktBuf st - of_nat (length ps)"
  "sByteBuf (fold count_removed ps st) = sByteBuf st - sum_list (map pkt_Len ps)"
  by (induction ps arbitrary: st) (simp_all add: count_removed_def)

lemma fold_count_drop [simp]:
  "sPktBuf (fold count_drop ps st) = sPktBuf st" "sByteBuf (fold count_drop ps st) = sByteBuf st"
  by (induction ps arbitrary: st) (simp_all add: count_drop_def)

lemma sum_list_filter_split:
  "sum_list (map f xs) = sum_list (map f (filter P xs)) + sum_list (map (f :: 'a \<Rightarrow> 'b::comm_monoid_add) (filter (\<lambda>x. \<not> P x) xs))"
  by (induction xs) (simp_all add: ac_simps)

lemma length_filter_split: "length xs = length (filter P xs) + length (filter (\<lambda>x. \<not> P x) xs)"
  by (induction xs) auto

lemma sum_list_while_split:
  "sum_list (map f xs) = sum_list (map f (takeWhile P xs)) + sum_list (map (f :: 'a \<Rightarrow> 'b::comm_monoid_add) (dropWhile P xs))"
  by (metis map_append sum_list_append takeWhile_dropWhile_id)

lemma length_while_split: "length xs = length (takeWhile P xs) + length (dropWhile P xs)"
  by (metis length_append takeWhile_dropWhile_id)

lemma buffer_counted_Tick_drop: "buffer_counted s \<Longrightarrow> buffer_counted (sender_Tick_drop now s)"
  using length_filter_split [of "lossList s" "too_old s now"]
    sum_list_filter_split [of pkt_Len "lossList s" "too_old s now"]
  by (auto simp: buffer_counted_def snd_buffer_def sender_Tick_drop_def Let_def)

lemma buffer_counted_ACK: "buffer_counted s \<Longrightarrow> buffer_counted (sender_ACK n s)"
  using length_while_split [of "lossList s" "\<lambda>p. Number_Lt (seqno p) n"]
    sum_list_while_split [of pkt_Len "lossList s" "\<lambda>p. Number_Lt (seqno p) n"]
  by (auto simp: buffer_counted_def snd_buffer_def sender_ACK_def Let_def dest: set_dropWhileD)

lemma map_num_filter:
  assumes "map f xs = map num ns" and "sorted_wrt (<) ns"
  shows "\<exists>ms. map f (filter P xs) = map num ms \<and> sorted_wrt (<) ms \<and> set ms \<subseteq> set ns"
  using assms
proof (induction xs arbitrary: ns)
  case (Cons x xs)
  then obtain n ns' where ns: "ns = n # ns'" "f x = num n" "map f xs = map num ns'"
    by (cases ns) auto
  then obtain ms where ms: "map f (filter P xs) = map num ms" "sorted_wrt (<) ms" "set ms \<subseteq> set ns'"
    using Cons.IH [OF ns(3)] Cons.prems(2) by auto
  have "sorted_wrt (<) (n # ms)"
    using ms ns(1) Cons.prems(2) by auto
  then show ?case
    using ns ms by (intro exI [of _ "if P x then n # ms else ms"]) auto
qed auto

lemma spec_ok_subset:
  "spec_ok a \<Longrightarrow> sorted_wrt (<) ms \<Longrightarrow> set ms \<subseteq> set (unacked a) \<Longrightarrow> spec_ok (a\<lparr>unacked := ms\<rparr>)"
  unfolding spec_ok_def sorted_wrt_append by (auto simp: subset_iff)

lemma represents_Tick_drop:
  assumes "represents s a" "spec_ok a"
  shows "\<exists>b. represents (sender_Tick_drop now s) b \<and> spec_ok b \<and> next_no b = next_no a \<and> queued b = queued a"
proof -
  obtain ms where "map seqno (lossList (sender_Tick_drop now s)) = map num ms" "sorted_wrt (<) ms"
    "set ms \<subseteq> set (unacked a)"
    using map_num_filter [of seqno "lossList s" "unacked a" "\<lambda>p. \<not> too_old s now p"] assms
    by (auto simp: represents_def spec_ok_def sorted_wrt_append sender_Tick_drop_def Let_def)
  then show ?thesis
    using assms spec_ok_subset [OF assms(2), of ms]
    by (intro exI [of _ "a\<lparr>unacked := ms\<rparr>"]) (simp add: represents_def sender_Tick_drop_def Let_def)
qed

lemma represents_ACK_any:
  assumes "represents s a" "spec_ok a"
  shows "\<exists>b. represents (sender_ACK n s) b \<and> spec_ok b \<and> next_no b = next_no a \<and> queued b = queued a"
proof -
  define k where "k = length (takeWhile (\<lambda>p. Number_Lt (seqno p) n) (lossList s))"
  have "represents (sender_ACK n s) (a\<lparr>unacked := drop k (unacked a)\<rparr>)"
    using assms(1) by (simp add: represents_def sender_ACK_def Let_def dropWhile_eq_drop k_def drop_map [symmetric])
  moreover have "spec_ok (a\<lparr>unacked := drop k (unacked a)\<rparr>)"
    using assms(2) by (intro spec_ok_subset)
      (auto simp: spec_ok_def sorted_wrt_append sorted_wrt_drop dest: in_set_dropD)
  ultimately show ?thesis by (intro exI) auto
qed

lemma dropWhile_sorted: "sorted_wrt (<) (ns :: nat list) \<Longrightarrow> dropWhile (\<lambda>i. i < n) ns = filter (\<lambda>i. n \<le> i) ns"
proof (induction ns)
  case (Cons a ns)
  moreover have "n \<le> a \<Longrightarrow> filter (\<lambda>i. n \<le> i) ns = ns"
    using Cons.prems by (intro filter_True) auto
  ultimately show ?case by auto
qed simp

lemma dropWhile_num:
  "map f xs = map num ns \<Longrightarrow> \<forall>i \<in> set ns. close i n
     \<Longrightarrow> map f (dropWhile (\<lambda>p. Number_Lt (f p) (num n)) xs) = map num (dropWhile (\<lambda>i. i < n) ns)"
proof (induction xs arbitrary: ns)
  case (Cons x xs)
  then show ?case by (cases ns) (auto simp: num_Lt)
qed auto

lemma represents_ACK:
  assumes "represents s a" "spec_ok a" "\<forall>i \<in> set (unacked a). close i n"
  shows "represents (sender_ACK (num n) s) (spec_ack n a)"
  using assms dropWhile_num [of seqno "lossList s" "unacked a" n] dropWhile_sorted [of "unacked a" n]
  by (auto simp: represents_def spec_ack_def sender_ACK_def Let_def spec_ok_def sorted_wrt_append)

context send_callback
begin

lemma Tick_send_effect:
  assumes "sender_Tick_send deliver now s c = (t, c')"
  shows "\<exists>sent. list_all2 same_packet (takeWhile (\<lambda>p. tsbpd p \<le> now) (sndPacketList s)) sent
    \<and> lossList t = lossList s @ sent \<and> sndPacketList t = dropWhile (\<lambda>p. tsbpd p \<le> now) (sndPacketList s)
    \<and> nextSequenceNumber t = nextSequenceNumber s \<and> sPktBuf (sstat t) = sPktBuf (sstat s)
    \<and> sByteBuf (sstat t) = sByteBuf (sstat s)"
proof -
  obtain sent rest u where u: "send_ripe deliver now (sndPacketList s) s c = (sent, rest, u, c')"
    and t: "t = u\<lparr>lossList := lossList u @ sent, sndPacketList := rest\<rparr>"
    using assms by (auto simp: sender_Tick_send_def split: prod.splits)
  show ?thesis
    using send_ripe_sent [OF u] t by (intro exI [of _ sent]) (simp add: same_buffer_def)
qed

lemma represents_Tick_send:
  assumes "represents s a" "sender_Tick_send deliver now s c = (t, c')"
  shows "represents t (spec_send (length (takeWhile (\<lambda>p. tsbpd p \<le> now) (sndPacketList s))) a)"
proof -
  let ?ripe = "\<lambda>p. tsbpd p \<le> now"
  obtain sent where s: "list_all2 same_packet (takeWhile ?ripe (sndPacketList s)) sent"
    and t: "lossList t = lossList s @ sent" "sndPacketList t = dropWhile ?ripe (sndPacketList s)"
      "nextSequenceNumber t = nextSequenceNumber s"
    using Tick_send_effect [OF assms(2)] by auto
  define k where "k = length (takeWhile ?ripe (sndPacketList s))"
  have "map seqno sent = take k (map seqno (sndPacketList s))"
    using same_packets_map(1) [OF s] unfolding k_def take_map by (simp flip: takeWhile_eq_take)
  moreover have "map seqno (sndPacketList t) = drop k (map seqno (sndPacketList s))"
    unfolding k_def t(2) drop_map by (simp flip: dropWhile_eq_drop)
  ultimately show ?thesis
    using assms(1) t(1,3) unfolding k_def [symmetric] represents_def spec_send_def
    by (simp add: take_map drop_map)
qed

lemma buffer_counted_Tick_send:
  assumes "buffer_counted s" "sender_Tick_send deliver now s c = (t, c')"
  shows "buffer_counted t"
proof -
  let ?r = "takeWhile (\<lambda>p. tsbpd p \<le> now) (sndPacketList s)"
  let ?d = "dropWhile (\<lambda>p. tsbpd p \<le> now) (sndPacketList s)"
  obtain sent where s: "list_all2 same_packet ?r sent"
    and t: "lossList t = lossList s @ sent" "sndPacketList t = ?d"
      "sPktBuf (sstat t) = sPktBuf (sstat s)" "sByteBuf (sstat t) = sByteBuf (sstat s)"
    using Tick_send_effect [OF assms(2)] by auto
  have "\<forall>p \<in> set ?r. commissioned p" "\<forall>p \<in> set ?d. commissioned p"
    using assms(1) by (auto simp: buffer_counted_def snd_buffer_def dest: set_takeWhileD set_dropWhileD)
  then show ?thesis
    using assms(1) t same_packets_map(2-4) [OF s] length_while_split [of "sndPacketList s" "\<lambda>p. tsbpd p \<le> now"]
      sum_list_while_split [of pkt_Len "sndPacketList s" "\<lambda>p. tsbpd p \<le> now"]
    unfolding buffer_counted_def snd_buffer_def by auto
qed

lemma NAK_effect:
  assumes "sender_NAK deliver l s c = Some (t, c')"
  shows "list_all2 same_packet (lossList s) (lossList t)" "sndPacketList t = sndPacketList s"
    "nextSequenceNumber t = nextSequenceNumber s" "sPktBuf (sstat t) = sPktBuf (sstat s)"
    "sByteBuf (sstat t) = sByteBuf (sstat s)"
proof -
  have r: "list_all2 same_packet (rev xs) ys \<Longrightarrow> list_all2 same_packet xs (rev ys)" for xs ys
    using list_all2_rev [of same_packet "rev xs" ys] by simp
  show "list_all2 same_packet (lossList s) (lossList t)" "sndPacketList t = sndPacketList s"
    "nextSequenceNumber t = nextSequenceNumber s" "sPktBuf (sstat t) = sPktBuf (sstat s)"
    "sByteBuf (sstat t) = sByteBuf (sstat s)"
    using assms by (auto simp: sender_NAK_def same_buffer_def list_all2_refl
      dest!: nak_packets_same r split: if_splits option.splits)
qed

lemma represents_NAK:
  "represents s a \<Longrightarrow> sender_NAK deliver l s c = Some (t, c') \<Longrightarrow> represents t a"
  using NAK_effect [of l s c t c'] same_packets_map(1) by (auto simp: represents_def)

lemma buffer_counted_NAK:
  "buffer_counted s \<Longrightarrow> sender_NAK deliver l s c = Some (t, c') \<Longrightarrow> buffer_counted t"
  using NAK_effect [of l s c t c'] same_packets_map [of "lossList s" "lossList t"]
  by (auto simp: buffer_counted_def snd_buffer_def)

lemma NAK_total: "even (length l) \<Longrightarrow> sender_NAK deliver l s c \<noteq> None"
  by (rule sender_NAK_total)

end

section \<open>Runs of the sender\<close>

text \<open>
  Every operation takes the sender's lock for each of its critical sections, so an execution is a sequence
  of critical sections; \<open>Tick\<close> has three of them.
\<close>

datatype send_event = SPush pkt | STickSend u64 | STickDrop u64 | STickRate u64
  | SACK Number | SNAK "Number list" | SSetDropThreshold u64

fun send_step ::
  "(pkt \<Rightarrow> 'c \<Rightarrow> pkt \<times> 'c) \<Rightarrow> (sender \<times> 'c) option \<Rightarrow> send_event \<Rightarrow> (sender \<times> 'c) option" where
  "send_step deliver None e = None"
| "send_step deliver (Some (s, c)) (SPush p) = Some (sender_Push s (Some p), c)"
| "send_step deliver (Some (s, c)) (STickSend now) = Some (sender_Tick_send deliver now s c)"
| "send_step deliver (Some (s, c)) (STickDrop now) = Some (sender_Tick_drop now s, c)"
| "send_step deliver (Some (s, c)) (STickRate now) = Some (sender_Tick_rate now s, c)"
| "send_step deliver (Some (s, c)) (SACK n) = Some (sender_ACK n s, c)"
| "send_step deliver (Some (s, c)) (SNAK l) = sender_NAK deliver l s c"
| "send_step deliver (Some (s, c)) (SSetDropThreshold t) = Some (sender_SetDropThreshold t s, c)"

text \<open>
  The environment pushes packets that have a payload buffer while the oldest buffered packet is less than
  half the number range away, and reports losses as ranges.
\<close>

definition snd_room :: "sender \<Rightarrow> bool" where
  "snd_room s \<longleftrightarrow> (case snd_buffer s of [] \<Rightarrow> True
     | p # _ \<Rightarrow> Number_Distance (seqno p) (nextSequenceNumber s) < 0x3FFFFFFE)"

fun send_ok :: "(sender \<times> 'c) option \<Rightarrow> send_event \<Rightarrow> bool" where
  "send_ok (Some (s, c)) (SPush p) = (commissioned p \<and> snd_room s)"
| "send_ok (Some (s, c)) (SNAK l) = even (length l)"
| "send_ok st e = True"

definition snd_inv :: "sender \<Rightarrow> bool" where
  "snd_inv s \<longleftrightarrow> (\<exists>a. represents s a \<and> spec_ok a) \<and> buffer_counted s"

definition send_inv :: "(sender \<times> 'c) option \<Rightarrow> bool" where
  "send_inv st \<longleftrightarrow> (\<exists>s c. st = Some (s, c) \<and> snd_inv s)"

lemma room_spec:
  assumes "represents s a" "spec_ok a" "snd_room s"
  shows "spec_room a"
proof (cases "unacked a @ queued a")
  case Nil then show ?thesis by (simp add: spec_room_def)
next
  case (Cons i js)
  have m: "map seqno (snd_buffer s) = map num (unacked a @ queued a)"
    using assms(1) by (simp add: represents_def snd_buffer_def)
  then obtain p ps where p: "snd_buffer s = p # ps" "seqno p = num i"
    using Cons by auto
  have i: "i < next_no a" "next_no a < i + half" "\<forall>j \<in> set (unacked a @ queued a). i \<le> j"
    using assms(2) Cons unfolding spec_ok_def by auto
  then have "close i (next_no a)" by (simp add: close_def)
  then have "unat (Number_Distance (seqno p) (nextSequenceNumber s)) = next_no a - i"
    using num_Distance i(1) p(2) assms(1) by (simp add: represents_def)
  moreover have "unat (Number_Distance (seqno p) (nextSequenceNumber s)) < 0x3FFFFFFE"
    using assms(3) p(1) by (simp add: snd_room_def word_less_nat_alt)
  ultimately have "Suc (next_no a) < i + half"
    using i(1) by (simp add: half_def)
  then show ?thesis
    using i(3) unfolding spec_room_def by (meson add_le_cancel_right less_le_trans)
qed

lemma snd_inv_same:
  "snd_inv s \<Longrightarrow> same_buffer s t \<Longrightarrow> snd_inv t"
  by (simp add: snd_inv_def same_buffer_def represents_def buffer_counted_def snd_buffer_def)

lemma snd_inv_Tick_rate: "snd_inv s \<Longrightarrow> snd_inv (sender_Tick_rate now s)"
  by (erule snd_inv_same) (simp add: same_buffer_def sender_Tick_rate_def Let_def)

lemma snd_inv_SetDropThreshold: "snd_inv s \<Longrightarrow> snd_inv (sender_SetDropThreshold t s)"
  by (simp add: snd_inv_def sender_SetDropThreshold_def represents_def buffer_counted_def snd_buffer_def)

lemma snd_inv_Push: "snd_inv s \<Longrightarrow> commissioned p \<Longrightarrow> snd_room s \<Longrightarrow> snd_inv (sender_Push s (Some p))"
  unfolding snd_inv_def using represents_Push spec_ok_push room_spec buffer_counted_Push by blast

lemma snd_inv_Tick_drop: "snd_inv s \<Longrightarrow> snd_inv (sender_Tick_drop now s)"
  unfolding snd_inv_def using represents_Tick_drop buffer_counted_Tick_drop by blast

lemma snd_inv_ACK: "snd_inv s \<Longrightarrow> snd_inv (sender_ACK n s)"
  unfolding snd_inv_def using represents_ACK_any buffer_counted_ACK by blast

lemma snd_inv_New: "wf_seq (scInitialSequenceNumber cfg) \<Longrightarrow> snd_inv (NewSender cfg)"
proof -
  assume "wf_seq (scInitialSequenceNumber cfg)"
  then have "represents (NewSender cfg) \<lparr>next_no = val (scInitialSequenceNumber cfg), unacked = [], queued = []\<rparr>"
    by (simp add: represents_def NewSender_def num_val Let_def)
  moreover have "spec_ok \<lparr>next_no = val (scInitialSequenceNumber cfg), unacked = [], queued = []\<rparr>"
    by (simp add: spec_ok_def)
  moreover have "buffer_counted (NewSender cfg)"
    by (simp add: buffer_counted_def NewSender_def snd_buffer_def zero_SendStats_def Let_def)
  ultimately show ?thesis unfolding snd_inv_def by blast
qed

context send_callback
begin

lemma snd_inv_Tick_send: "snd_inv s \<Longrightarrow> snd_inv (fst (sender_Tick_send deliver now s c))"
proof -
  assume "snd_inv s"
  moreover obtain t c' where "sender_Tick_send deliver now s c = (t, c')" by fastforce
  ultimately show ?thesis
    unfolding snd_inv_def using represents_Tick_send spec_ok_send buffer_counted_Tick_send by fastforce
qed

lemma snd_inv_NAK: "snd_inv s \<Longrightarrow> sender_NAK deliver l s c = Some (t, c') \<Longrightarrow> snd_inv t"
  unfolding snd_inv_def using represents_NAK buffer_counted_NAK by blast

lemma send_step_inv: "send_inv st \<Longrightarrow> send_ok st e \<Longrightarrow> send_inv (send_step deliver st e)"
proof -
  assume i: "send_inv st" and ok: "send_ok st e"
  obtain s c where st: "st = Some (s, c)" "snd_inv s" using i by (auto simp: send_inv_def)
  show ?thesis
  proof (cases e)
    case (STickSend now)
    then show ?thesis using snd_inv_Tick_send [OF st(2), of now c] st
      by (cases "sender_Tick_send deliver now s c") (simp add: send_inv_def)
  next
    case (SNAK l)
    then show ?thesis using NAK_total [of l s c] snd_inv_NAK [OF st(2), of l c] st ok
      by (auto simp: send_inv_def)
  qed (use st ok in \<open>auto simp: send_inv_def intro: snd_inv_Push snd_inv_Tick_drop snd_inv_Tick_rate
         snd_inv_ACK snd_inv_SetDropThreshold\<close>)
qed

end

sublocale send_callback \<subseteq> runs: transition_system "send_step deliver" send_ok send_inv
  by unfold_locales (rule send_step_inv)

context send_callback
begin

lemma send_run_inv:
  "send_inv st \<Longrightarrow> run_ok (send_step deliver) send_ok st es \<Longrightarrow> send_inv (run (send_step deliver) st es)"
  by (rule runs.run_inv)

end

text \<open>The callback of \<^verbatim>\<open>NewSender\<close> when none is configured does nothing.\<close>

interpretation no_op: send_callback "\<lambda>p c. (p, c)"
  by unfold_locales simp

text \<open>A callback that only records what it is given.\<close>

definition recorder :: "pkt \<Rightarrow> pkt list \<Rightarrow> pkt \<times> pkt list" where
  "recorder p c = (p, c @ [p])"

interpretation rec: send_callback recorder
  by unfold_locales (simp add: recorder_def)

fun loss_ranges :: "Number list \<Rightarrow> (Number \<times> Number) list" where
  "loss_ranges (a # b # l) = (a, b) # loss_ranges l"
| "loss_ranges _ = []"

definition reported :: "Number list \<Rightarrow> pkt \<Rightarrow> nat" where
  "reported l p = length (filter (\<lambda>(a, b). Number_Gte (seqno p) a \<and> Number_Lte (seqno p) b) (loss_ranges l))"

lemma mark_retransmitted_simps [simp]:
  "mark_retransmitted (mark_retransmitted p) = mark_retransmitted p"
  "seqno (mark_retransmitted p) = seqno p" "reported l (mark_retransmitted p) = reported l p"
  by (simp_all add: mark_retransmitted_def reported_def)

lemma nak_ranges_recorded:
  "even (length l) \<Longrightarrow> \<exists>t. nak_ranges recorder l p s c =
     Some (if reported l p = 0 then p else mark_retransmitted p, t, c @ replicate (reported l p) (mark_retransmitted p))"
proof (induction l arbitrary: p s c rule: induct_list012)
  case (3 a b l)
  note IH = 3(1) [of p s c] 3(1) [of "mark_retransmitted p" "count_retrans s p" "c @ [mark_retransmitted p]"]
  have r: "reported (a # b # l) p =
      (if Number_Gte (seqno p) a \<and> Number_Lte (seqno p) b then Suc (reported l p) else reported l p)"
    by (simp add: reported_def)
  show ?case
    using IH 3(3) by (auto simp: r recorder_def Let_def)
qed (auto simp: reported_def)

lemma nak_packets_recorded:
  "even (length l) \<Longrightarrow> \<exists>t. nak_packets recorder l ps s c =
     Some (map (\<lambda>p. if reported l p = 0 then p else mark_retransmitted p) ps, t,
       c @ concat (map (\<lambda>p. replicate (reported l p) (mark_retransmitted p)) ps))"
proof (induction ps arbitrary: s c)
  case (Cons p ps)
  obtain t where "nak_ranges recorder l p s c = Some (if reported l p = 0 then p else mark_retransmitted p, t,
      c @ replicate (reported l p) (mark_retransmitted p))"
    using nak_ranges_recorded [OF Cons.prems] by blast
  then show ?case
    using Cons.IH [OF Cons.prems, of t "c @ replicate (reported l p) (mark_retransmitted p)"] by auto
qed simp

lemma send_ripe_recorded:
  "snd (snd (snd (send_ripe recorder now ps s c))) = c @ takeWhile (\<lambda>p. tsbpd p \<le> now) ps"
  "fst (send_ripe recorder now ps s c) = takeWhile (\<lambda>p. tsbpd p \<le> now) ps"
  by (induction ps arbitrary: s c) (simp_all add: recorder_def Let_def case_prod_beta)

lemma spec_close:
  assumes "spec_ok a" "i \<in> set (unacked a @ queued a)" "j \<in> set (unacked a @ queued a)"
  shows "close i j"
proof -
  have "i < next_no a \<and> next_no a < i + half" "j < next_no a \<and> next_no a < j + half"
    using assms unfolding spec_ok_def by blast+
  then show ?thesis by (simp add: close_def)
qed

lemma snd_inv_sorted:
  assumes "snd_inv s"
  shows "sorted_wrt (\<lambda>p q. Number_Lt (seqno p) (seqno q)) (snd_buffer s)"
proof -
  obtain a where a: "represents s a" "spec_ok a" using assms by (auto simp: snd_inv_def)
  have "sorted_wrt (<) (unacked a @ queued a)" using a(2) unfolding spec_ok_def by blast
  then have "sorted_wrt (\<lambda>i j. Number_Lt (num i) (num j)) (unacked a @ queued a)"
    by (rule sorted_wrt_mono_rel [rotated]) (use num_Lt spec_close [OF a(2)] in blast)
  then have "sorted_wrt Number_Lt (map num (unacked a @ queued a))"
    by (simp only: sorted_wrt_map)
  also have "map num (unacked a @ queued a) = map seqno (snd_buffer s)"
    using a(1) by (simp add: represents_def snd_buffer_def)
  finally show ?thesis by (simp only: sorted_wrt_map)
qed

lemma snd_inv_queue:
  assumes "snd_inv s"
  shows "\<exists>n. nextSequenceNumber s = num n \<and> length (sndPacketList s) \<le> n
    \<and> map seqno (sndPacketList s) = map num [n - length (sndPacketList s)..<n]"
proof -
  obtain a where a: "represents s a" "spec_ok a" using assms by (auto simp: snd_inv_def)
  have "length (sndPacketList s) = length (queued a)"
    using a(1) map_eq_imp_length_eq unfolding represents_def by blast
  then show ?thesis
    using a by (intro exI [of _ "next_no a"]) (auto simp: represents_def spec_ok_def)
qed

section \<open>Properties\<close>

definition sample_packet :: "u64 \<Rightarrow> bytes \<Rightarrow> pkt" where
  "sample_packet t d = (NewPacket None)\<lparr>header := (header (NewPacket None))\<lparr>PktTsbpdTime := t\<rparr>, payload := Some d\<rparr>"

definition sample_config :: SendConfig where
  "sample_config = \<lparr>scInitialSequenceNumber = Number_New 0x7FFFFFFF MAX_SEQUENCENUMBER, scDropThreshold = 100,
     scMaxBW = 0, scInputBW = 0, scMinInputBW = 0, scOverheadBW = 0\<rparr>"

lemmas number_eval = Number_New_def Number_Inc_def Number_Lt_def Number_Lte_def Number_Gte_def Number_Gt_def
  Number_Distance_def Number_Val_def Number_Equals_def MAX_SEQUENCENUMBER_def

lemmas nak_eval = count_retrans_def mark_retransmitted_def

definition sample_events :: "send_event list" where
  "sample_events = [SPush (sample_packet 10 [1, 2]), SPush (sample_packet 20 [3]), STickSend 15,
     SNAK [Number_New 0x7FFFFFFF MAX_SEQUENCENUMBER, Number_New 3 MAX_SEQUENCENUMBER],
     SACK (Number_New 0 MAX_SEQUENCENUMBER), SPush (sample_packet 30 [4, 5])]"

lemma sample_run_ok: "run_ok (send_step recorder) send_ok (Some (NewSender sample_config, [])) sample_events"
  by (simp add: sample_events_def NewSender_def sample_config_def snd_room_def snd_buffer_def sender_Push_def
      sample_packet_def commissioned_def Let_def sender_Tick_send_def recorder_def count_sent_def
      sender_NAK_def nak_eval sender_ACK_def number_eval word_le_nat_alt word_less_nat_alt)


lemma sample_config_wf: "wf_seq (scInitialSequenceNumber sample_config)"
  by (simp add: sample_config_def wf_seq_def wf_New MAX_SEQUENCENUMBER_def)


text \<open>
  C4. The operations implement the specification over unbounded packet numbers: \<open>Push\<close> takes the next
  number and queues it, \<open>Tick\<close> moves the ripe prefix of the queue to the unacknowledged packets, an
  acknowledgement removes exactly the packets below it, and retransmission changes nothing.
\<close>

theorem sender_refines:
  assumes "send_callback deliver" and "represents s a" and "spec_ok a"
  shows "represents (sender_Push s (Some p)) (spec_push a)
    \<and> represents (fst (sender_Tick_send deliver now s c))
        (spec_send (length (takeWhile (\<lambda>p. tsbpd p \<le> now) (sndPacketList s))) a)
    \<and> ((\<forall>i \<in> set (unacked a). close i n) \<longrightarrow> represents (sender_ACK (num n) s) (spec_ack n a))
    \<and> (sender_NAK deliver l s c = Some (t, c') \<longrightarrow> represents t a)
    \<and> spec_ok (spec_send k a) \<and> spec_ok (spec_ack n a) \<and> (spec_room a \<longrightarrow> spec_ok (spec_push a))"
  using assms represents_Push represents_ACK spec_ok_send spec_ok_ack spec_ok_push
    send_callback.represents_NAK [OF assms(1)]
    send_callback.represents_Tick_send [OF assms(1,2), of now c "fst (sender_Tick_send deliver now s c)"
      "snd (sender_Tick_send deliver now s c)"]
  by auto

theorem sender_refines_witness:
  "represents (NewSender (sample_config\<lparr>scInitialSequenceNumber := num 5\<rparr>)) \<lparr>next_no = 5, unacked = [], queued = []\<rparr>
   \<and> represents (sender_Push (NewSender (sample_config\<lparr>scInitialSequenceNumber := num 5\<rparr>)) (Some (NewPacket None)))
       \<lparr>next_no = 6, unacked = [], queued = [5]\<rparr>"
proof -
  have s: "represents (NewSender (sample_config\<lparr>scInitialSequenceNumber := num 5\<rparr>)) \<lparr>next_no = 5, unacked = [], queued = []\<rparr>"
    by (simp add: represents_def NewSender_def)
  have "spec_ok \<lparr>next_no = 5, unacked = [], queued = []\<rparr>" by (simp add: spec_ok_def)
  from sender_refines [OF rec.send_callback_axioms s this, of "NewPacket None"] s
  show ?thesis by (simp add: spec_push_def)
qed

text \<open>
  C15. A loss report makes the sender deliver, from the newest to the oldest sent packet, exactly the packets
  in the reported ranges, once for each range that holds it and with the retransmission flag set; no other
  packet is touched, and a list of ranges never makes it panic.
\<close>

theorem sender_NAK_retransmits:
  assumes "even (length l)"
  shows "\<exists>t. sender_NAK recorder l s c =
      Some (t, c @ concat (map (\<lambda>p. replicate (reported l p) (mark_retransmitted p)) (rev (lossList s))))
    \<and> lossList t = map (\<lambda>p. if reported l p = 0 then p else mark_retransmitted p) (lossList s)"
proof (cases "l = []")
  case True
  have "reported [] p = 0" for p by (simp add: reported_def)
  then show ?thesis using True by (simp add: sender_NAK_def map_idI concat_eq_Nil_conv)
next
  case False
  then show ?thesis
    using nak_packets_recorded [OF assms, of "rev (lossList s)" s c] by (auto simp: sender_NAK_def rev_map)
qed

theorem sender_NAK_retransmits_witness:
  "\<exists>t. sender_NAK recorder [num 3, num 4] (NewSender sample_config) [] = Some (t, []) \<and> lossList t = []"
  using sender_NAK_retransmits [of "[num 3, num 4]" "NewSender sample_config" "[]"] by (simp add: NewSender_def)

text \<open>
  C18. \<open>Tick\<close> delivers the packets at the front of the queue whose time has come, in the order of the queue
  and unchanged, stops at the first packet whose time has not come, and keeps every delivered packet for
  retransmission until it is acknowledged or too old.
\<close>

theorem sender_Tick_delivers:
  "snd (sender_Tick recorder now s c) = c @ takeWhile (\<lambda>p. tsbpd p \<le> now) (sndPacketList s)
   \<and> sndPacketList (fst (sender_Tick recorder now s c)) = dropWhile (\<lambda>p. tsbpd p \<le> now) (sndPacketList s)
   \<and> lossList (fst (sender_Tick recorder now s c)) =
       filter (\<lambda>p. \<not> tsbpd p + dropThreshold s \<le> now)
         (lossList s @ takeWhile (\<lambda>p. tsbpd p \<le> now) (sndPacketList s))"
proof -
  obtain sent rest t c' where r: "send_ripe recorder now (sndPacketList s) s c = (sent, rest, t, c')"
    by (metis prod_cases4)
  have "dropThreshold t = dropThreshold s" "lossList t = lossList s"
    using rec.send_ripe_sent(3) [OF r] by (simp_all add: same_buffer_def)
  then show ?thesis
    using r send_ripe_recorded [of now "sndPacketList s" s c] rec.send_ripe_sent(2) [OF r]
    by (simp add: sender_Tick_def sender_Tick_send_def sender_Tick_drop_def sender_Tick_rate_def too_old_def
        Let_def)
qed

lemma nak_packets_odd:
  "p \<in> set ps \<Longrightarrow> Number_Gte (seqno p) a \<Longrightarrow> nak_packets recorder [a] ps s c = None"
proof (induction ps arbitrary: s c)
  case (Cons q ps)
  then show ?case by (cases "Number_Gte (seqno q) a") auto
qed simp

lemma length_sort_Slice [simp]: "length (sort_Slice lt xs) = length xs"
  using mset_eq_length [OF mset_sort_Slice] .

lemma CIFNAK_even: "CIFNAK_Unmarshal c0 data = Inr c \<Longrightarrow> even (length (LostPacketSequenceNumber c))"
  by (auto simp: CIFNAK_Unmarshal_def Let_def split: if_splits)



text \<open>
  C27. Probe packets: of two packets pushed one after the other, where the first gets a sequence number
  divisible by 16, the second inherits the delivery time of the first, so the receiver can measure the link
  capacity from the pair.
\<close>

theorem sender_Push_probe_pair:
  assumes "nextSequenceNumber s = num (16 * k)"
  shows "\<exists>a b. sndPacketList (sender_Push (sender_Push s (Some p)) (Some q)) = sndPacketList s @ [a, b]
    \<and> seqno a = num (16 * k) \<and> seqno b = num (16 * k + 1) \<and> tsbpd a = tsbpd p \<and> tsbpd b = tsbpd p
    \<and> Timestamp (header b) = ucast (tsbpd q AND ucast MAX_TIMESTAMP)"
proof -
  have m: "nvalue (num i) AND 0xF = of_nat (i mod 16)" for i
  proof -
    have "nvalue (num i) AND 0xF = take_bit 4 (nvalue (num i))"
      unfolding take_bit_eq_mask by (simp add: mask_eq_exp_minus_1)
    then have "unat (nvalue (num i) AND 0xF) = i mod 2147483648 mod 16"
      using val_num [of i] by (simp add: take_bit_eq_mod unat_mod_distrib)
    also have "\<dots> = i mod 16" using mod_mod_cancel [of 16 "16 * 134217728" i] by simp
    also have "\<dots> = unat (of_nat (i mod 16) :: u32)"
      by (simp add: unsigned_of_nat take_bit_nat_eq_self)
    finally show ?thesis by (simp only: word_unat_eq_iff)
  qed
  have one: "(16 * k + 1) mod 16 = 1" by presburger
  show ?thesis
    using assms m [of "16 * k"] m [of "16 * k + 1"] one
    by (simp add: sender_Push_def Let_def Number_Val_def)
qed

theorem sender_Push_probe_pair_witness:
  "\<exists>a b. sndPacketList (sender_Push (sender_Push (NewSender (sample_config\<lparr>scInitialSequenceNumber := num 32\<rparr>))
       (Some (sample_packet 10 [1]))) (Some (sample_packet 25 [2]))) = [a, b] \<and> tsbpd b = 10"
  using sender_Push_probe_pair [of "NewSender (sample_config\<lparr>scInitialSequenceNumber := num 32\<rparr>)" 2
      "sample_packet 10 [1]" "sample_packet 25 [2]"]
  by (auto simp: NewSender_def sample_packet_def)

text \<open>
  Two facts about the code that differ from what its names suggest: the configured maximum bandwidth has no
  effect, and \<open>Flush\<close> empties the buffer without resetting the statistics that count it.
\<close>

lemma NewSender_ignores_MaxBW: "NewSender (cfg\<lparr>scMaxBW := a\<rparr>) = NewSender (cfg\<lparr>scMaxBW := b\<rparr>)"
  by (simp add: NewSender_def)

lemma sender_Flush_keeps_counters:
  "snd_buffer (sender_Flush s) = [] \<and> sPktBuf (sstat (sender_Flush s)) = sPktBuf (sstat s)"
  by (simp add: sender_Flush_def snd_buffer_def)

end
