(* ===== verification/Live_Receive.thy ===== *)
theory Live_Receive
  imports Live_Send
begin

text \<open>
  The receiving half of the live congestion control (\<^verbatim>\<open>congestion/live/receive.go\<close>, statistics in
  \<^verbatim>\<open>congestion/congestion.go\<close>).

  The state is the record \<open>receiver\<close>; each method is a function on it. The callbacks \<open>sendACK\<close>,
  \<open>sendNAK\<close> and \<open>deliver\<close> act on a state \<open>'c\<close> of the connection. The wall clock that \<open>Push\<close> reads
  is an argument in nanoseconds. \<open>Tick\<close> has four critical sections, each a definition of its own.
\<close>

section \<open>State\<close>

record ReceiveStats =
  rPkt :: u64
  rByte :: u64
  rPktUnique :: u64
  rByteUnique :: u64
  rPktLoss :: u64
  rByteLoss :: u64
  rPktLost :: u64
  rPktRetrans :: u64
  rByteRetrans :: u64
  rPktBelated :: u64
  rByteBelated :: u64
  rPktLate :: u64
  rByteLate :: u64
  rPktDrop :: u64
  rByteDrop :: u64
  rPktBuf :: u64
  rByteBuf :: u64
  rMsBuf :: u64
  rBytePayload :: u64
  rMbpsEstimatedRecvBandwidth :: float64
  rMbpsEstimatedLinkCapacity :: float64
  rPktLossRate :: float64

definition zero_ReceiveStats :: ReceiveStats where
  "zero_ReceiveStats = \<lparr>rPkt = 0, rByte = 0, rPktUnique = 0, rByteUnique = 0, rPktLoss = 0, rByteLoss = 0,
     rPktLost = 0, rPktRetrans = 0, rByteRetrans = 0, rPktBelated = 0, rByteBelated = 0, rPktLate = 0,
     rByteLate = 0, rPktDrop = 0, rByteDrop = 0, rPktBuf = 0, rByteBuf = 0, rMsBuf = 0, rBytePayload = 0,
     rMbpsEstimatedRecvBandwidth = Fin 0, rMbpsEstimatedLinkCapacity = Fin 0, rPktLossRate = Fin 0\<rparr>"

record recv_rate =
  rr_last :: u64
  rr_period :: u64
  rr_packets :: u64
  rr_bytes :: u64
  rr_bytesRetrans :: u64
  rr_packetsPerSecond :: float64
  rr_bytesPerSecond :: float64
  rr_pktLossRate :: float64

record ReceiveConfig =
  rcInitialSequenceNumber :: Number
  rcPeriodicACKInterval :: u64
  rcPeriodicNAKInterval :: u64

record receiver =
  maxSeenSequenceNumber :: Number
  lastACKSequenceNumber :: Number
  lastDeliveredSequenceNumber :: Number
  rcvPacketList :: "pkt list"
  nPackets :: u64
  periodicACKInterval :: u64
  periodicNAKInterval :: u64
  lastPeriodicACK :: u64
  lastPeriodicNAK :: u64
  rcvAvgPayloadSize :: float64
  avgLinkCapacity :: float64
  probeTime :: "int option"
  probeNextSeq :: Number
  rstat :: ReceiveStats
  rrate :: recv_rate

text \<open>The zero \<^verbatim>\<open>time.Time\<close> of \<open>probeTime\<close> is \<open>None\<close>.\<close>

definition NewReceiver :: "ReceiveConfig \<Rightarrow> receiver" where
  "NewReceiver config =
     \<lparr>maxSeenSequenceNumber = Number_Dec (rcInitialSequenceNumber config),
      lastACKSequenceNumber = Number_Dec (rcInitialSequenceNumber config),
      lastDeliveredSequenceNumber = Number_Dec (rcInitialSequenceNumber config),
      rcvPacketList = [], nPackets = 0,
      periodicACKInterval = rcPeriodicACKInterval config,
      periodicNAKInterval = rcPeriodicNAKInterval config,
      lastPeriodicACK = 0, lastPeriodicNAK = 0,
      rcvAvgPayloadSize = Fin 1456, avgLinkCapacity = Fin 0,
      probeTime = None, probeNextSeq = \<lparr>nmax = 0, nthreshold = 0, nvalue = 0\<rparr>,
      rstat = zero_ReceiveStats,
      rrate = \<lparr>rr_last = 0, rr_period = 1000000, rr_packets = 0, rr_bytes = 0, rr_bytesRetrans = 0,
        rr_packetsPerSecond = Fin 0, rr_bytesPerSecond = Fin 0, rr_pktLossRate = Fin 0\<rparr>\<rparr>"

definition receiver_Stats :: "receiver \<Rightarrow> ReceiveStats \<times> receiver" where
  "receiver_Stats r =
     (let st = (rstat r)\<lparr>rBytePayload := f_to_u64 (rcvAvgPayloadSize r),
                        rMbpsEstimatedRecvBandwidth := to_mbps (rr_bytesPerSecond (rrate r)),
                        rMbpsEstimatedLinkCapacity := to_mbps (f_mul (avgLinkCapacity r) (Fin 1456)),
                        rPktLossRate := rr_pktLossRate (rrate r)\<rparr>
      in (st, r\<lparr>rstat := st\<rparr>))"

definition receiver_PacketRate :: "receiver \<Rightarrow> float64 \<times> float64 \<times> float64" where
  "receiver_PacketRate r = (rr_packetsPerSecond (rrate r), rr_bytesPerSecond (rrate r), avgLinkCapacity r)"

definition receiver_Flush :: "receiver \<Rightarrow> receiver" where
  "receiver_Flush r = r\<lparr>rcvPacketList := []\<rparr>"

definition receiver_SetNAKInterval :: "u64 \<Rightarrow> receiver \<Rightarrow> receiver" where
  "receiver_SetNAKInterval nakInterval r = r\<lparr>periodicNAKInterval := nakInterval\<rparr>"

section \<open>Push\<close>

text \<open>Go's integer division truncates towards zero; a difference of times saturates at 64 bits.\<close>

definition go_quot :: "int \<Rightarrow> int \<Rightarrow> int" where
  "go_quot a b = sgn a * sgn b * (\<bar>a\<bar> div \<bar>b\<bar>)"

definition time_Sub :: "int \<Rightarrow> int \<Rightarrow> int" where
  "time_Sub t u = max (- 9223372036854775808) (min 9223372036854775807 (t - u))"

text \<open>
  \<^verbatim>\<open>float64(time.Since(r.probeTime).Microseconds()) * (MAX_PAYLOAD_SIZE / float64(pkt.Len()))\<close> and the
  running average of the link capacity.
\<close>

definition probe_diff :: "int \<Rightarrow> int \<Rightarrow> u64 \<Rightarrow> float64" where
  "probe_diff wall t pktLen = f_mul (f_of_int (go_quot (time_Sub wall t) 1000)) (f_div (Fin 1456) (f_of_u64 pktLen))"

definition rcv_probe :: "int \<Rightarrow> pkt \<Rightarrow> receiver \<Rightarrow> receiver" where
  "rcv_probe wall p r =
     (if \<not> RetransmittedPacketFlag (header p) then
        let probe = Number_Val (seqno p) AND 0xF in
        if probe = 0 then r\<lparr>probeTime := Some wall, probeNextSeq := Number_Inc (seqno p)\<rparr>
        else if probe = 1 \<and> Number_Equals (seqno p) (probeNextSeq r) \<and> probeTime r \<noteq> None \<and> pkt_Len p \<noteq> 0 then
          let diff = probe_diff wall (the (probeTime r)) (pkt_Len p) in
          (if f_eq diff (Fin 0) then r
           else r\<lparr>avgLinkCapacity := f_add (f_mul (Fin (7 / 8)) (avgLinkCapacity r)) (f_div (Fin 125000) diff)\<rparr>)
        else r\<lparr>probeTime := None\<rparr>
      else r\<lparr>probeTime := None\<rparr>)"

definition rcv_count :: "pkt \<Rightarrow> receiver \<Rightarrow> receiver" where
  "rcv_count p r =
     (let pktLen = pkt_Len p;
          r = r\<lparr>nPackets := nPackets r + 1,
                rrate := (rrate r)\<lparr>rr_packets := rr_packets (rrate r) + 1, rr_bytes := rr_bytes (rrate r) + pktLen\<rparr>,
                rstat := (rstat r)\<lparr>rPkt := rPkt (rstat r) + 1, rByte := rByte (rstat r) + pktLen\<rparr>\<rparr>;
          r = (if RetransmittedPacketFlag (header p)
               then r\<lparr>rstat := (rstat r)\<lparr>rPktRetrans := rPktRetrans (rstat r) + 1,
                                       rByteRetrans := rByteRetrans (rstat r) + pktLen\<rparr>,
                      rrate := (rrate r)\<lparr>rr_bytesRetrans := rr_bytesRetrans (rrate r) + pktLen\<rparr>\<rparr>
               else r)
      in r\<lparr>rcvAvgPayloadSize := avg_payload (rcvAvgPayloadSize r) pktLen\<rparr>)"

definition count_dropped :: "u64 \<Rightarrow> receiver \<Rightarrow> receiver" where
  "count_dropped pktLen r = r\<lparr>rstat := (rstat r)\<lparr>rPktDrop := rPktDrop (rstat r) + 1,
     rByteDrop := rByteDrop (rstat r) + pktLen\<rparr>\<rparr>"

definition count_belated :: "u64 \<Rightarrow> receiver \<Rightarrow> receiver" where
  "count_belated pktLen r = r\<lparr>rstat := (rstat r)\<lparr>rPktBelated := rPktBelated (rstat r) + 1,
     rByteBelated := rByteBelated (rstat r) + pktLen\<rparr>\<rparr>"

definition count_buffered :: "u64 \<Rightarrow> receiver \<Rightarrow> receiver" where
  "count_buffered pktLen r = r\<lparr>rstat := (rstat r)\<lparr>rPktBuf := rPktBuf (rstat r) + 1,
     rPktUnique := rPktUnique (rstat r) + 1, rByteBuf := rByteBuf (rstat r) + pktLen,
     rByteUnique := rByteUnique (rstat r) + pktLen\<rparr>\<rparr>"

definition count_late :: "u64 \<Rightarrow> receiver \<Rightarrow> receiver" where
  "count_late pktLen r = r\<lparr>rstat := (rstat r)\<lparr>rPktLate := rPktLate (rstat r) + 1,
     rByteLate := rByteLate (rstat r) + pktLen\<rparr>\<rparr>"

text \<open>The loop that looks for the place of a packet that came out of order.\<close>

datatype place = NoPlace | AlreadyReceived | InsertBefore "pkt list"

fun rcv_place :: "pkt \<Rightarrow> pkt list \<Rightarrow> place" where
  "rcv_place p [] = NoPlace"
| "rcv_place p (e # es) =
     (if seqno e = seqno p then AlreadyReceived
      else if Number_Gt (seqno e) (seqno p) then InsertBefore (p # e # es)
      else case rcv_place p es of InsertBefore l \<Rightarrow> InsertBefore (e # l) | x \<Rightarrow> x)"

definition rcv_out_of_order :: "pkt \<Rightarrow> receiver \<Rightarrow> receiver" where
  "rcv_out_of_order p r =
     (case rcv_place p (rcvPacketList r) of
        NoPlace \<Rightarrow> r
      | AlreadyReceived \<Rightarrow> count_dropped (pkt_Len p) r
      | InsertBefore l \<Rightarrow> (count_late (pkt_Len p) (count_buffered (pkt_Len p) r))\<lparr>rcvPacketList := l\<rparr>)"

definition rcv_append :: "pkt \<Rightarrow> receiver \<Rightarrow> receiver" where
  "rcv_append p r = (count_buffered (pkt_Len p) r)\<lparr>rcvPacketList := rcvPacketList r @ [p]\<rparr>"

definition rcv_gap :: "pkt \<Rightarrow> receiver \<Rightarrow> receiver" where
  "rcv_gap p r =
     (let len = ucast (Number_Distance (seqno p) (maxSeenSequenceNumber r)) - 1
      in r\<lparr>rstat := (rstat r)\<lparr>rPktLoss := rPktLoss (rstat r) + len,
                             rByteLoss := rByteLoss (rstat r) + len * f_to_u64 (rcvAvgPayloadSize r)\<rparr>,
           maxSeenSequenceNumber := seqno p\<rparr>)"

definition receiver_Push ::
  "(Number list \<Rightarrow> 'c \<Rightarrow> 'c) \<Rightarrow> int \<Rightarrow> pkt option \<Rightarrow> receiver \<Rightarrow> 'c \<Rightarrow> receiver \<times> 'c" where
  "receiver_Push sendNAK wall po r c =
     (case po of
        None \<Rightarrow> (r, c)
      | Some p \<Rightarrow>
          (let r = rcv_count p (rcv_probe wall p r) in
           if Number_Lte (seqno p) (lastDeliveredSequenceNumber r) then
             (count_dropped (pkt_Len p) (count_belated (pkt_Len p) r), c)
           else if Number_Lt (seqno p) (lastACKSequenceNumber r) then
             (count_dropped (pkt_Len p) r, c)
           else if Number_Equals (seqno p) (Number_Inc (maxSeenSequenceNumber r)) then
             (rcv_append p (r\<lparr>maxSeenSequenceNumber := seqno p\<rparr>), c)
           else if Number_Lte (seqno p) (maxSeenSequenceNumber r) then
             (rcv_out_of_order p r, c)
           else
             let c = sendNAK [Number_Inc (maxSeenSequenceNumber r), Number_Dec (seqno p)] c
             in (rcv_append p (rcv_gap p r), c)))"

section \<open>Tick\<close>

fun ack_scan :: "u64 \<Rightarrow> u64 \<Rightarrow> pkt list \<Rightarrow> Number \<Rightarrow> u64 \<Rightarrow> Number \<times> u64" where
  "ack_scan now minT [] ack ms = (ack, ms)"
| "ack_scan now minT (p # ps) ack ms =
     (if Number_Lte (seqno p) ack then ack_scan now minT ps ack ms
      else if tsbpd p \<le> now then ack_scan now minT ps (seqno p) ms
      else if Number_Equals (seqno p) (Number_Inc ack) then
        ack_scan now minT ps (seqno p) ((tsbpd p - minT) div 1000)
      else (ack, ms))"

text \<open>The result is \<open>None\<close> when \<open>ok\<close> is false.\<close>

definition receiver_periodicACK :: "u64 \<Rightarrow> receiver \<Rightarrow> (Number \<times> bool) option \<times> receiver" where
  "receiver_periodicACK now r =
     (let early = now - lastPeriodicACK r < periodicACKInterval r in
      if early \<and> \<not> nPackets r \<ge> 64 then (None, r)
      else
        let minT = (case rcvPacketList r of [] \<Rightarrow> 0 | p # _ \<Rightarrow> tsbpd p);
            (ack, ms) = ack_scan now minT (rcvPacketList r) (lastACKSequenceNumber r) (rMsBuf (rstat r))
        in (Some (Number_Inc ack, early),
            r\<lparr>rstat := (rstat r)\<lparr>rMsBuf := ms\<rparr>, lastACKSequenceNumber := ack, lastPeriodicACK := now,
              nPackets := 0\<rparr>))"

fun nak_scan :: "pkt list \<Rightarrow> Number \<Rightarrow> Number list" where
  "nak_scan [] ack = []"
| "nak_scan (p # ps) ack =
     (if Number_Lte (seqno p) ack then nak_scan ps ack
      else if \<not> Number_Equals (seqno p) (Number_Inc ack) then
        Number_Inc ack # Number_Dec (seqno p) # nak_scan ps (seqno p)
      else nak_scan ps (seqno p))"

definition receiver_periodicNAK :: "u64 \<Rightarrow> receiver \<Rightarrow> Number list \<times> receiver" where
  "receiver_periodicNAK now r =
     (if now - lastPeriodicNAK r < periodicNAKInterval r then ([], r)
      else (nak_scan (rcvPacketList r) (lastACKSequenceNumber r), r\<lparr>lastPeriodicNAK := now\<rparr>))"

definition receiver_Tick_ack ::
  "(Number \<Rightarrow> bool \<Rightarrow> 'c \<Rightarrow> 'c) \<Rightarrow> u64 \<Rightarrow> receiver \<Rightarrow> 'c \<Rightarrow> receiver \<times> 'c" where
  "receiver_Tick_ack sendACK now r c =
     (case receiver_periodicACK now r of
        (None, r) \<Rightarrow> (r, c)
      | (Some (sequenceNumber, lite), r) \<Rightarrow> (r, sendACK sequenceNumber lite c))"

definition receiver_Tick_nak ::
  "(Number list \<Rightarrow> 'c \<Rightarrow> 'c) \<Rightarrow> u64 \<Rightarrow> receiver \<Rightarrow> 'c \<Rightarrow> receiver \<times> 'c" where
  "receiver_Tick_nak sendNAK now r c =
     (let (l, r) = receiver_periodicNAK now r in (r, if l \<noteq> [] then sendNAK l c else c))"

definition ripe :: "u64 \<Rightarrow> receiver \<Rightarrow> pkt \<Rightarrow> bool" where
  "ripe now r p \<longleftrightarrow> Number_Lte (seqno p) (lastACKSequenceNumber r) \<and> tsbpd p \<le> now"

definition count_delivered :: "pkt \<Rightarrow> receiver \<Rightarrow> receiver" where
  "count_delivered p r = r\<lparr>rstat := (rstat r)\<lparr>rPktBuf := rPktBuf (rstat r) - 1,
     rByteBuf := rByteBuf (rstat r) - pkt_Len p\<rparr>, lastDeliveredSequenceNumber := seqno p\<rparr>"

text \<open>The second loop counts the packets that are missing between the delivered ones.\<close>

fun count_lost :: "Number \<Rightarrow> pkt list \<Rightarrow> u64 \<Rightarrow> Number \<times> u64" where
  "count_lost l [] n = (l, n)"
| "count_lost l (p # ps) n =
     (let distance = Number_Distance l (seqno p)
      in count_lost (seqno p) ps (if distance > 1 then n + ucast (distance - 1) else n))"

definition receiver_Tick_deliver :: "(pkt \<Rightarrow> 'c \<Rightarrow> 'c) \<Rightarrow> u64 \<Rightarrow> receiver \<Rightarrow> 'c \<Rightarrow> receiver \<times> 'c" where
  "receiver_Tick_deliver deliver now r c =
     (let l0 = lastDeliveredSequenceNumber r;
          removeList = takeWhile (ripe now r) (rcvPacketList r);
          rest = dropWhile (ripe now r) (rcvPacketList r);
          r = fold count_delivered removeList r;
          c = fold deliver removeList c
      in if removeList = [] then (r, c)
         else
           let (l, n) = count_lost l0 removeList (rPktLost (rstat r));
               distance = Number_Distance l (lastDeliveredSequenceNumber r);
               n = (if distance > 1 then n + ucast (distance - 1) else n)
           in (r\<lparr>rcvPacketList := rest, rstat := (rstat r)\<lparr>rPktLost := n\<rparr>\<rparr>, c))"

text \<open>Without received bytes the loss rate keeps its value: \<open>bytes\<close> is reset in its place.\<close>

definition receiver_Tick_rate :: "u64 \<Rightarrow> receiver \<Rightarrow> receiver" where
  "receiver_Tick_rate now r =
     (let q = rrate r; tdiff = now - rr_last q in
      if tdiff > rr_period q then
        r\<lparr>rrate := q\<lparr>rr_packetsPerSecond := per_second (rr_packets q) tdiff,
                    rr_bytesPerSecond := per_second (rr_bytes q) tdiff,
                    rr_pktLossRate := (if rr_bytes q \<noteq> 0 then percentage (rr_bytesRetrans q) (rr_bytes q)
                                       else rr_pktLossRate q),
                    rr_packets := 0, rr_bytes := 0, rr_bytesRetrans := 0, rr_last := now\<rparr>\<rparr>
      else r)"

definition receiver_Tick ::
  "(Number \<Rightarrow> bool \<Rightarrow> 'c \<Rightarrow> 'c) \<Rightarrow> (Number list \<Rightarrow> 'c \<Rightarrow> 'c) \<Rightarrow> (pkt \<Rightarrow> 'c \<Rightarrow> 'c)
     \<Rightarrow> u64 \<Rightarrow> receiver \<Rightarrow> 'c \<Rightarrow> receiver \<times> 'c" where
  "receiver_Tick sendACK sendNAK deliver now r c =
     (let (r, c) = receiver_Tick_ack sendACK now r c;
          (r, c) = receiver_Tick_nak sendNAK now r c;
          (r, c) = receiver_Tick_deliver deliver now r c
      in (receiver_Tick_rate now r, c))"

section \<open>Specification over packet numbers\<close>

text \<open>
  What the receiver promises, over unbounded packet numbers: the last delivered packet, the last
  acknowledged one, the highest seen, and the numbers of the buffered packets in increasing order.
\<close>

record recv_spec =
  sdel :: nat
  sack :: nat
  smax :: nat
  sbuf :: "nat list"

definition add_no :: "nat \<Rightarrow> nat list \<Rightarrow> nat list" where
  "add_no i ns = filter (\<lambda>j. j < i) ns @ i # filter (\<lambda>j. i < j) ns"

definition spec_arrive :: "nat \<Rightarrow> recv_spec \<Rightarrow> recv_spec" where
  "spec_arrive i a =
     (if i \<le> sdel a \<or> i < sack a then a else a\<lparr>smax := max i (smax a), sbuf := add_no i (sbuf a)\<rparr>)"

definition spec_deliver :: "nat \<Rightarrow> recv_spec \<Rightarrow> recv_spec" where
  "spec_deliver k a = a\<lparr>sdel := last (sdel a # take k (sbuf a)), sbuf := drop k (sbuf a)\<rparr>"

text \<open>
  The buffer holds only undelivered packets; its last packet is the highest one seen. The distance between
  the highest packet and the last delivered one stays below half the number range. Packet numbers start at
  half the range or above, so that a belated packet has a number as well.
\<close>

definition recv_ok :: "recv_spec \<Rightarrow> bool" where
  "recv_ok a \<longleftrightarrow> half \<le> sdel a \<and> sdel a \<le> sack a \<and> sack a \<le> smax a \<and> smax a < sdel a + half
     \<and> sorted_wrt (<) (sbuf a) \<and> (\<forall>i \<in> set (sbuf a). sdel a < i) \<and> smax a = last (sdel a # sbuf a)"

definition rcv_represents :: "receiver \<Rightarrow> recv_spec \<Rightarrow> bool" where
  "rcv_represents r a \<longleftrightarrow> maxSeenSequenceNumber r = num (smax a) \<and> lastACKSequenceNumber r = num (sack a)
     \<and> lastDeliveredSequenceNumber r = num (sdel a) \<and> map seqno (rcvPacketList r) = map num (sbuf a)"

definition rcv_counted :: "receiver \<Rightarrow> bool" where
  "rcv_counted r \<longleftrightarrow> rPktBuf (rstat r) = of_nat (length (rcvPacketList r))
     \<and> rByteBuf (rstat r) = sum_list (map pkt_Len (rcvPacketList r))"

lemma sorted_last: "sorted_wrt (<) (ns :: nat list) \<Longrightarrow> i \<in> set ns \<Longrightarrow> i \<le> last ns"
  by (induction ns) (auto simp: less_imp_le)

lemma recv_ok_le: "recv_ok a \<Longrightarrow> i \<in> set (sbuf a) \<Longrightarrow> i \<le> smax a"
  using sorted_last [of "sbuf a" i] by (auto simp: recv_ok_def)

lemma set_add_no [simp]: "set (add_no i ns) = insert i (set ns)"
  by (auto simp: add_no_def)

lemma sorted_add_no: "sorted_wrt (<) ns \<Longrightarrow> sorted_wrt (<) (add_no i ns)"
  by (auto simp: add_no_def sorted_wrt_append sorted_wrt_filter_same)

lemma add_no_last: "sorted_wrt (<) ns \<Longrightarrow> \<forall>j \<in> set ns. d < j \<Longrightarrow> d < i
    \<Longrightarrow> last (d # add_no i ns) = max i (last (d # ns))"
proof -
  assume a: "sorted_wrt (<) ns" "\<forall>j \<in> set ns. d < j" "d < i"
  have s: "sorted_wrt (<) (add_no i ns)" by (rule sorted_add_no [OF a(1)])
  have "add_no i ns \<noteq> []" by (simp add: add_no_def)
  then have l: "last (add_no i ns) \<in> insert i (set ns)" "\<forall>j \<in> insert i (set ns). j \<le> last (add_no i ns)"
    using last_in_set [of "add_no i ns"] sorted_last [OF s] by auto
  show ?thesis
  proof (cases "ns = []")
    case True then show ?thesis using a by (simp add: add_no_def)
  next
    case False
    then have "last ns \<in> set ns" "\<forall>j \<in> set ns. j \<le> last ns" using sorted_last [OF a(1)] by auto
    then show ?thesis using l False \<open>add_no i ns \<noteq> []\<close> by (auto intro!: antisym)
  qed
qed

lemma recv_ok_arrive: "recv_ok a \<Longrightarrow> i < sdel a + half \<Longrightarrow> recv_ok (spec_arrive i a)"
proof -
  assume a: "recv_ok a" and i: "i < sdel a + half"
  show ?thesis
  proof (cases "i \<le> sdel a \<or> i < sack a")
    case False
    then have "last (sdel a # add_no i (sbuf a)) = max i (smax a)"
      using a add_no_last [of "sbuf a" "sdel a" i] by (simp add: recv_ok_def)
    then show ?thesis using False a i sorted_add_no [of "sbuf a" i]
      by (simp del: last.simps add: recv_ok_def spec_arrive_def le_max_iff_disj)
  qed (use a in \<open>simp add: spec_arrive_def\<close>)
qed

lemma add_no_above: "\<forall>j \<in> set ns. j < i \<Longrightarrow> add_no i ns = ns @ [i]"
  by (auto simp: add_no_def filter_empty_conv intro: filter_True)

lemma add_no_below: "\<forall>j \<in> set ns. i < j \<Longrightarrow> add_no i ns = i # ns"
  by (auto simp: add_no_def filter_empty_conv intro: filter_True)

lemma add_no_Cons: "n < i \<Longrightarrow> add_no i (n # ns) = n # add_no i ns"
  by (simp add: add_no_def)

lemma add_no_mem: "sorted_wrt (<) ns \<Longrightarrow> i \<in> set ns \<Longrightarrow> add_no i ns = ns"
proof (induction ns)
  case (Cons n ns)
  show ?case
  proof (cases "i = n")
    case True then show ?thesis using Cons.prems by (auto simp: add_no_def filter_empty_conv intro: filter_True)
  next
    case False then show ?thesis using Cons by (auto simp: add_no_Cons)
  qed
qed simp

text \<open>Looking for the place of a packet among numbered packets.\<close>

lemma rcv_place_num:
  assumes "map seqno es = map num ns" "sorted_wrt (<) ns" "\<forall>j \<in> set ns. close i j" "seqno p = num i"
  shows "(if i \<in> set ns then rcv_place p es = AlreadyReceived
    else if \<exists>j \<in> set ns. i < j then \<exists>l. rcv_place p es = InsertBefore l
        \<and> map seqno l = map num (add_no i ns) \<and> mset l = add_mset p (mset es)
    else rcv_place p es = NoPlace)"
  using assms(1-3)
proof (induction es arbitrary: ns)
  case (Cons e es)
  then obtain n ns' where ns: "ns = n # ns'" "seqno e = num n" "map seqno es = map num ns'"
    by (cases ns) auto
  have c: "close i n" "close n i" using Cons.prems(3) ns(1) close_sym by auto
  have e: "seqno e = seqno p \<longleftrightarrow> n = i" "Number_Gt (seqno e) (seqno p) \<longleftrightarrow> i < n"
    using c assms(4) ns(2) by (simp_all add: num_compare)
  consider "n = i" | "i < n" | "n < i" by linarith
  then show ?case
  proof cases
    case 1 then show ?thesis using e ns(1) by simp
  next
    case 2
    moreover have "\<forall>j \<in> set (n # ns'). i < j" using Cons.prems(2) ns(1) 2 by auto
    ultimately show ?thesis using e ns assms(4) Cons.prems(1) by (auto simp: add_no_below)
  next
    case 3
    have "n \<noteq> i" "\<not> i < n" using 3 by auto
    then show ?thesis
      using Cons.IH [OF ns(3)] Cons.prems(2,3) ns e 3 by (auto simp: add_no_Cons split: if_splits)
  qed
qed simp

section \<open>Arrival of a packet\<close>

text \<open>Two states of the receiver that differ only in rates and in counters that the invariant leaves out.\<close>

definition same_rcv :: "receiver \<Rightarrow> receiver \<Rightarrow> bool" where
  "same_rcv r t \<longleftrightarrow> maxSeenSequenceNumber t = maxSeenSequenceNumber r
     \<and> lastACKSequenceNumber t = lastACKSequenceNumber r
     \<and> lastDeliveredSequenceNumber t = lastDeliveredSequenceNumber r \<and> rcvPacketList t = rcvPacketList r
     \<and> rPktBuf (rstat t) = rPktBuf (rstat r) \<and> rByteBuf (rstat t) = rByteBuf (rstat r)
     \<and> rPktUnique (rstat t) = rPktUnique (rstat r) \<and> rPktLost (rstat t) = rPktLost (rstat r)"

lemma same_rcv_refl [simp]: "same_rcv r r"
  by (simp add: same_rcv_def)

lemma same_rcv_trans: "same_rcv r t \<Longrightarrow> same_rcv t u \<Longrightarrow> same_rcv r u"
  by (simp add: same_rcv_def)

lemma same_rcv_probe: "same_rcv r (rcv_probe wall p r)"
  by (simp add: same_rcv_def rcv_probe_def Let_def)

lemma same_rcv_count: "same_rcv r (rcv_count p r)"
  by (simp add: same_rcv_def rcv_count_def Let_def)

lemma same_rcv_prologue: "same_rcv r (rcv_count p (rcv_probe wall p r))"
  by (rule same_rcv_trans [OF same_rcv_probe same_rcv_count])

lemma same_rcv_dropped: "same_rcv r (count_dropped n r)" "same_rcv r (count_belated n r)"
  by (simp_all add: same_rcv_def count_dropped_def count_belated_def)

lemma rcv_represents_same: "rcv_represents r a \<Longrightarrow> same_rcv r t \<Longrightarrow> rcv_represents t a"
  by (simp add: rcv_represents_def same_rcv_def)

lemma rcv_counted_same: "rcv_counted r \<Longrightarrow> same_rcv r t \<Longrightarrow> rcv_counted t"
  by (simp add: rcv_counted_def same_rcv_def)

text \<open>What \<open>Push\<close> does to the buffer: the packet is either counted as dropped or it is buffered once.\<close>

definition buffered_one :: "pkt \<Rightarrow> receiver \<Rightarrow> receiver \<Rightarrow> bool" where
  "buffered_one p r t \<longleftrightarrow> mset (rcvPacketList t) = add_mset p (mset (rcvPacketList r))
     \<and> rPktBuf (rstat t) = rPktBuf (rstat r) + 1 \<and> rByteBuf (rstat t) = rByteBuf (rstat r) + pkt_Len p
     \<and> rPktUnique (rstat t) = rPktUnique (rstat r) + 1 \<and> rPktLost (rstat t) = rPktLost (rstat r)"

lemma buffered_one_append: "buffered_one p r (rcv_append p (rcv_gap p r))"
    "buffered_one p r (rcv_append p (r\<lparr>maxSeenSequenceNumber := n\<rparr>))"
  by (simp_all add: buffered_one_def rcv_append_def rcv_gap_def count_buffered_def Let_def)

lemma rcv_counted_buffered: "rcv_counted r \<Longrightarrow> buffered_one p r t \<Longrightarrow> rcv_counted t"
proof -
  assume r: "rcv_counted r" and b: "buffered_one p r t"
  have m: "mset (rcvPacketList t) = add_mset p (mset (rcvPacketList r))" using b by (simp add: buffered_one_def)
  have "length (rcvPacketList t) = Suc (length (rcvPacketList r))"
    using arg_cong [OF m, of size] by simp
  moreover have "sum_list (map pkt_Len (rcvPacketList t)) = pkt_Len p + sum_list (map pkt_Len (rcvPacketList r))"
    using arg_cong [OF m, of "\<lambda>x. sum_mset (image_mset pkt_Len x)"] by (simp flip: sum_mset_sum_list)
  ultimately show ?thesis using r b by (simp add: rcv_counted_def buffered_one_def ac_simps)
qed

lemma buffered_one_same: "same_rcv r t \<Longrightarrow> buffered_one p t u \<Longrightarrow> buffered_one p r u"
  by (simp add: same_rcv_def buffered_one_def)

lemma out_of_order_arrives:
  assumes "rcv_represents r a" "recv_ok a" "seqno p = num i" "sdel a < i" "sack a \<le> i" "i \<le> smax a"
  shows "rcv_represents (rcv_out_of_order p r) (spec_arrive i a)
    \<and> (if i \<in> set (sbuf a) then same_rcv r (rcv_out_of_order p r) else buffered_one p r (rcv_out_of_order p r))"
proof -
  have m: "map seqno (rcvPacketList r) = map num (sbuf a)" using assms(1) by (simp add: rcv_represents_def)
  have s: "sorted_wrt (<) (sbuf a)" using assms(2) by (simp add: recv_ok_def)
  have c: "\<forall>j \<in> set (sbuf a). close i j"
    using assms(2,4,6) recv_ok_le [OF assms(2)] by (fastforce simp: recv_ok_def close_def)
  have a: "spec_arrive i a = a\<lparr>sbuf := add_no i (sbuf a)\<rparr>"
    using assms(4-6) by (simp add: spec_arrive_def max_def)
  show ?thesis
  proof (cases "i \<in> set (sbuf a)")
    case True
    then show ?thesis
      using rcv_place_num [OF m s c assms(3)] same_rcv_dropped(1) rcv_represents_same [OF assms(1)]
      by (simp add: a add_no_mem [OF s] rcv_out_of_order_def)
  next
    case False
    have "sbuf a \<noteq> []" using assms(2,4,6) by (auto simp: recv_ok_def)
    then have "smax a \<in> set (sbuf a)" using assms(2) by (simp add: recv_ok_def)
    then have "\<exists>j \<in> set (sbuf a). i < j" using assms(6) False le_neq_implies_less by blast
    then show ?thesis
      using rcv_place_num [OF m s c assms(3)] False assms(1)
      by (auto simp: rcv_out_of_order_def rcv_represents_def buffered_one_def a count_late_def count_buffered_def)
  qed
qed

lemma append_arrives:
  assumes "rcv_represents r a" "recv_ok a" "seqno p = num i" "smax a < i"
  shows "rcv_represents (rcv_append p (rcv_gap p r)) (spec_arrive i a)"
    "rcv_represents (rcv_append p (r\<lparr>maxSeenSequenceNumber := seqno p\<rparr>)) (spec_arrive i a)"
proof -
  have "sdel a < i" "sack a < i" using assms(2,4) unfolding recv_ok_def by linarith+
  moreover have "\<forall>j \<in> set (sbuf a). j < i" using recv_ok_le [OF assms(2)] assms(4) by fastforce
  ultimately have "spec_arrive i a = a\<lparr>smax := i, sbuf := sbuf a @ [i]\<rparr>"
    using assms(4) by (simp add: spec_arrive_def add_no_above)
  then show "rcv_represents (rcv_append p (rcv_gap p r)) (spec_arrive i a)"
    "rcv_represents (rcv_append p (r\<lparr>maxSeenSequenceNumber := seqno p\<rparr>)) (spec_arrive i a)"
    using assms(1,3) by (simp_all add: rcv_represents_def rcv_append_def rcv_gap_def count_buffered_def Let_def)
qed

lemma Push_arrives:
  assumes "rcv_represents r a" "recv_ok a" "seqno p = num i" "close i (sdel a)"
    "receiver_Push sendNAK wall (Some p) r c = (t, c')"
  shows "rcv_represents t (spec_arrive i a)
    \<and> (if i \<le> sdel a \<or> i < sack a \<or> i \<in> set (sbuf a) then same_rcv r t else buffered_one p r t)
    \<and> c' = (if Suc (smax a) < i then sendNAK [num (Suc (smax a)), num (i - 1)] c else c)"
proof -
  define u where "u = rcv_count p (rcv_probe wall p r)"
  have u: "same_rcv r u" by (simp add: u_def same_rcv_prologue)
  then have ru: "rcv_represents u a" using rcv_represents_same [OF assms(1)] by blast
  have w: "sdel a \<le> sack a" "sack a \<le> smax a" "smax a < sdel a + half" using assms(2) by (simp_all add: recv_ok_def)
  consider "i \<le> sdel a" | "sdel a < i" "i < sack a" | "sdel a < i" "sack a \<le> i" "i \<le> smax a" | "smax a < i"
    using w by linarith
  then show ?thesis
  proof cases
    case 1
    then have "t = count_dropped (pkt_Len p) (count_belated (pkt_Len p) u)" "c' = c"
      using assms(3-5) ru by (auto simp: receiver_Push_def u_def [symmetric] rcv_represents_def num_compare)
    moreover have "same_rcv r (count_dropped (pkt_Len p) (count_belated (pkt_Len p) u))"
      using u same_rcv_dropped same_rcv_trans by blast
    ultimately show ?thesis using 1 w rcv_represents_same [OF assms(1)] by (simp add: spec_arrive_def)
  next
    case 2
    then have "close i (sack a)" using w assms(4) by (simp add: close_def)
    then have "t = count_dropped (pkt_Len p) u" "c' = c"
      using 2 assms(3-5) ru by (auto simp: receiver_Push_def u_def [symmetric] rcv_represents_def num_compare)
    moreover have "same_rcv r (count_dropped (pkt_Len p) u)"
      using u same_rcv_dropped same_rcv_trans by blast
    ultimately show ?thesis using 2 w rcv_represents_same [OF assms(1)] by (simp add: spec_arrive_def)
  next
    case 3
    then have "close i (sack a)" "close i (smax a)" "close i (Suc (smax a))"
      using w assms(4) by (auto simp: close_def)
    then have "t = rcv_out_of_order p u" "c' = c"
      using 3 assms(3-5) ru by (auto simp: receiver_Push_def u_def [symmetric] rcv_represents_def num_compare)
    then show ?thesis
      using out_of_order_arrives [OF ru assms(2,3) 3] 3 u same_rcv_trans buffered_one_same by auto
  next
    case 4
    then have c: "close i (sack a)" "close i (smax a)" "close i (Suc (smax a))" "sdel a < i"
      using w assms(4) by (auto simp: close_def)
    have d: "Number_Dec (num i) = num (i - 1)" using 4 num_Dec [of "i - 1"] by simp
    have "(t, c') = (if i = Suc (smax a) then (rcv_append p (u\<lparr>maxSeenSequenceNumber := seqno p\<rparr>), c)
        else (rcv_append p (rcv_gap p u), sendNAK [num (Suc (smax a)), num (i - 1)] c))"
      using 4 c assms(3-5) ru d w
      by (auto simp: receiver_Push_def u_def [symmetric] rcv_represents_def num_compare Let_def)
    moreover have "i \<notin> set (sbuf a)" using recv_ok_le [OF assms(2), of i] 4 by auto
    ultimately show ?thesis
      using append_arrives [OF ru assms(2,3) 4] buffered_one_same [OF u] buffered_one_append c 4 w
      by (auto split: if_splits)
  qed
qed

section \<open>Acknowledgement\<close>

text \<open>The scan over numbered packets, each with a flag that tells whether its delivery time has come.\<close>

fun ack_no :: "(nat \<times> bool) list \<Rightarrow> nat \<Rightarrow> nat" where
  "ack_no [] a = a"
| "ack_no ((n, late) # xs) a = (if n \<le> a then ack_no xs a else if late \<or> n = Suc a then ack_no xs n else a)"

definition flagged :: "u64 \<Rightarrow> pkt list \<Rightarrow> nat list \<Rightarrow> (nat \<times> bool) list" where
  "flagged now ps ns = zip ns (map (\<lambda>p. tsbpd p \<le> now) ps)"

lemma ack_scan_num:
  assumes "map seqno ps = map num ns" "d \<le> a \<and> a < d + half" "\<forall>i \<in> set ns. d < i \<and> i < d + half"
  shows "fst (ack_scan now minT ps (num a) ms) = num (ack_no (flagged now ps ns) a)"
  using assms
proof (induction ps arbitrary: ns a ms)
  case (Cons p ps)
  then obtain n ns' where ns: "ns = n # ns'" "seqno p = num n" "map seqno ps = map num ns'"
    by (cases ns) auto
  have "close n a" "close n (Suc a)" using Cons.prems(2,3) ns(1) by (auto simp: close_def)
  then show ?case
    using Cons.IH [OF ns(3)] Cons.prems(2,3) ns by (auto simp: num_compare flagged_def)
qed (simp add: flagged_def)

text \<open>
  The scan moves forward to a buffered packet. It passes over a missing packet only when a later packet
  that it passes has reached its delivery time, and it stops at a packet that is neither the next one nor
  due.
\<close>

lemma ack_no_mono: "a \<le> ack_no xs a"
  by (induction xs a rule: ack_no.induct) (auto split: if_splits)

lemma ack_no_mem: "ack_no xs a = a \<or> ack_no xs a \<in> fst ` set xs"
  by (induction xs a rule: ack_no.induct) (auto split: if_splits)

lemma ack_no_passed:
  "a < i \<Longrightarrow> i \<le> ack_no xs a \<Longrightarrow> i \<in> fst ` set xs \<or> (\<exists>j. (j, True) \<in> set xs \<and> i < j \<and> j \<le> ack_no xs a)"
proof (induction xs a rule: ack_no.induct)
  case (2 n late xs a)
  show ?case
  proof (cases "n \<le> a")
    case True then show ?thesis using 2(1) 2(3,4) by auto
  next
    case n: False
    show ?thesis
    proof (cases "late \<or> n = Suc a")
      case True
      consider "i < n" | "i = n" | "n < i" by linarith
      then show ?thesis
      proof cases
        case 1
        then show ?thesis using n True 2(3) ack_no_mono [of n xs] by auto
      next
        case 3
        then show ?thesis using 2(2) [OF n True] 2(4) n True by auto
      qed simp
    qed (use 2(3,4) n in simp)
  qed
qed simp

lemma ack_no_stops:
  "sorted_wrt (<) (map fst xs) \<Longrightarrow> dropWhile (\<lambda>x. fst x \<le> ack_no xs a) xs = (n, late) # ys
     \<Longrightarrow> n \<noteq> Suc (ack_no xs a) \<and> \<not> late"
proof (induction xs a rule: ack_no.induct)
  case (2 m l xs a)
  have "m \<le> ack_no xs m" by (rule ack_no_mono)
  moreover have "m \<le> a \<Longrightarrow> m \<le> ack_no xs a" using ack_no_mono [of a xs] by simp
  ultimately show ?case using 2 by (auto split: if_splits)
qed simp

section \<open>Loss reports\<close>

fun gaps :: "nat list \<Rightarrow> nat \<Rightarrow> (nat \<times> nat) list" where
  "gaps [] a = []"
| "gaps (n # ns) a = (if n \<le> a then gaps ns a else if n \<noteq> Suc a then (Suc a, n - 1) # gaps ns n else gaps ns n)"

definition range_list :: "(nat \<times> nat) list \<Rightarrow> Number list" where
  "range_list rs = concat (map (\<lambda>(x, y). [num x, num y]) rs)"

lemma nak_scan_num:
  assumes "map seqno ps = map num ns" "d \<le> a \<and> a < d + half" "\<forall>i \<in> set ns. d < i \<and> i < d + half"
  shows "nak_scan ps (num a) = range_list (gaps ns a)"
  using assms
proof (induction ps arbitrary: ns a)
  case (Cons p ps)
  then obtain n ns' where ns: "ns = n # ns'" "seqno p = num n" "map seqno ps = map num ns'"
    by (cases ns) auto
  have "close n a" "close n (Suc a)" using Cons.prems(2,3) ns(1) by (auto simp: close_def)
  moreover have "a < n \<Longrightarrow> Number_Dec (num n) = num (n - 1)" using num_Dec [of "n - 1"] by simp
  ultimately show ?case
    using Cons.IH [OF ns(3)] Cons.prems(2,3) ns by (auto simp: num_compare range_list_def)
qed (simp add: range_list_def)

text \<open>The ranges are not empty, in order, separated by received packets, and cover exactly the missing ones.\<close>

lemma gaps_bounds:
  "sorted_wrt (<) ns \<Longrightarrow> (x, y) \<in> set (gaps ns a) \<Longrightarrow> a < x \<and> x \<le> y \<and> Suc y \<in> set ns"
  by (induction ns a rule: gaps.induct) (fastforce split: if_splits)+

lemma gaps_separated:
  "sorted_wrt (<) ns \<Longrightarrow> sorted_wrt (\<lambda>r s. Suc (snd r) < fst s) (gaps ns a)"
proof (induction ns a rule: gaps.induct)
  case (2 n ns a)
  have "\<forall>s \<in> set (gaps ns n). n < fst s"
    using 2(4) gaps_bounds [of ns _ _ n] by fastforce
  then show ?case using 2 by auto
qed simp

lemma gaps_cover:
  "sorted_wrt (<) ns \<Longrightarrow>
     (\<exists>(x, y) \<in> set (gaps ns a). x \<le> i \<and> i \<le> y) \<longleftrightarrow> a < i \<and> i \<notin> set ns \<and> (\<exists>j \<in> set ns. i < j)"
proof (induction ns a rule: gaps.induct)
  case (2 n ns a)
  have s: "\<forall>j \<in> set ns. n < j" "sorted_wrt (<) ns" using 2(4) by auto
  consider "n \<le> a" | "n = Suc a" | "Suc a < n" by linarith
  then show ?case
  proof cases
    case 1 then show ?thesis using 2(1) [OF 1 s(2)] by auto
  next
    case 2
    then have "\<not> n \<le> a" "\<not> n \<noteq> Suc a" by auto
    from "2.IH"(3) [OF this s(2)] show ?thesis using 2 by auto
  next
    case 3
    then have "\<not> n \<le> a" "n \<noteq> Suc a" by auto
    from "2.IH"(2) [OF this s(2)] show ?thesis using 3 s(1) by (cases "i < n") auto
  qed
qed simp

section \<open>The critical sections of \<open>Tick\<close>\<close>

definition spec_acked :: "u64 \<Rightarrow> receiver \<Rightarrow> recv_spec \<Rightarrow> nat" where
  "spec_acked now r a = ack_no (flagged now (rcvPacketList r) (sbuf a)) (sack a)"

lemma recv_ok_window: "recv_ok a \<Longrightarrow> i \<in> set (sbuf a) \<Longrightarrow> sdel a < i \<and> i < sdel a + half"
  using recv_ok_le [of a i] by (auto simp: recv_ok_def)

lemma set_flagged:
  "map f ps = map num ns \<Longrightarrow> fst ` set (flagged now ps ns) = set ns"
  "map f ps = map num ns \<Longrightarrow> map fst (flagged now ps ns) = ns"
proof -
  assume "map f ps = map num ns"
  then have "length ns = length ps" using map_eq_imp_length_eq by metis
  then show "map fst (flagged now ps ns) = ns" by (simp add: flagged_def)
  then show "fst ` set (flagged now ps ns) = set ns" by (metis list.set_map)
qed

lemma recv_ok_acked:
  assumes "rcv_represents r a" "recv_ok a"
  shows "recv_ok (a\<lparr>sack := spec_acked now r a\<rparr>)"
proof -
  have "fst ` set (flagged now (rcvPacketList r) (sbuf a)) = set (sbuf a)"
    using assms(1) set_flagged(1) [of seqno] by (simp add: rcv_represents_def)
  then have "spec_acked now r a = sack a \<or> spec_acked now r a \<in> set (sbuf a)"
    using ack_no_mem unfolding spec_acked_def by metis
  moreover have "sack a \<le> spec_acked now r a" unfolding spec_acked_def by (rule ack_no_mono)
  ultimately show ?thesis using assms(2) recv_ok_le [OF assms(2)] unfolding recv_ok_def by auto
qed

lemma periodicACK_num:
  assumes "rcv_represents r a" "recv_ok a" "receiver_periodicACK now r = (Some (n, lite), t)"
  shows "n = num (Suc (spec_acked now r a))" "rcv_represents t (a\<lparr>sack := spec_acked now r a\<rparr>)"
    "rcvPacketList t = rcvPacketList r" "rPktBuf (rstat t) = rPktBuf (rstat r)"
    "rByteBuf (rstat t) = rByteBuf (rstat r)" "rPktUnique (rstat t) = rPktUnique (rstat r)"
    "rPktLost (rstat t) = rPktLost (rstat r)"
proof -
  have s: "fst (ack_scan now minT (rcvPacketList r) (num (sack a)) ms) = num (spec_acked now r a)" for minT ms
    unfolding spec_acked_def
    by (rule ack_scan_num [where d = "sdel a"])
      (use assms(1,2) recv_ok_window [OF assms(2)] in \<open>auto simp: rcv_represents_def recv_ok_def\<close>)
  obtain minT ack ms where k: "ack_scan now minT (rcvPacketList r) (num (sack a)) (rMsBuf (rstat r)) = (ack, ms)"
    "n = Number_Inc ack" "t = r\<lparr>rstat := (rstat r)\<lparr>rMsBuf := ms\<rparr>, lastACKSequenceNumber := ack,
       lastPeriodicACK := now, nPackets := 0\<rparr>"
    using assms(1,3)
    by (auto simp: receiver_periodicACK_def rcv_represents_def Let_def split: if_splits prod.splits)
  then have "ack = num (spec_acked now r a)" using s by (metis fst_conv)
  then show "n = num (Suc (spec_acked now r a))" "rcv_represents t (a\<lparr>sack := spec_acked now r a\<rparr>)"
    "rcvPacketList t = rcvPacketList r" "rPktBuf (rstat t) = rPktBuf (rstat r)"
    "rByteBuf (rstat t) = rByteBuf (rstat r)" "rPktUnique (rstat t) = rPktUnique (rstat r)"
    "rPktLost (rstat t) = rPktLost (rstat r)"
    using k assms(1) by (simp_all add: rcv_represents_def)
qed

lemma periodicACK_None: "receiver_periodicACK now r = (None, t) \<Longrightarrow> t = r"
  by (auto simp: receiver_periodicACK_def Let_def split: if_splits prod.splits)

lemma periodicNAK_num:
  assumes "rcv_represents r a" "recv_ok a" "receiver_periodicNAK now r = (l, t)"
  shows "l = [] \<or> l = range_list (gaps (sbuf a) (sack a))" "same_rcv r t"
proof -
  have "nak_scan (rcvPacketList r) (num (sack a)) = range_list (gaps (sbuf a) (sack a))"
    by (rule nak_scan_num [where d = "sdel a"])
      (use assms(1,2) recv_ok_window [OF assms(2)] in \<open>auto simp: rcv_represents_def recv_ok_def\<close>)
  then show "l = [] \<or> l = range_list (gaps (sbuf a) (sack a))" "same_rcv r t"
    using assms(1,3) by (auto simp: receiver_periodicNAK_def rcv_represents_def same_rcv_def split: if_splits)
qed

lemma fold_count_delivered:
  "rPktBuf (rstat (fold count_delivered ps r)) = rPktBuf (rstat r) - of_nat (length ps)"
  "rByteBuf (rstat (fold count_delivered ps r)) = rByteBuf (rstat r) - sum_list (map pkt_Len ps)"
  "lastDeliveredSequenceNumber (fold count_delivered ps r) = last (lastDeliveredSequenceNumber r # map seqno ps)"
  "maxSeenSequenceNumber (fold count_delivered ps r) = maxSeenSequenceNumber r"
  "lastACKSequenceNumber (fold count_delivered ps r) = lastACKSequenceNumber r"
  "rcvPacketList (fold count_delivered ps r) = rcvPacketList r"
  "rPktUnique (rstat (fold count_delivered ps r)) = rPktUnique (rstat r)"
  "rPktLost (rstat (fold count_delivered ps r)) = rPktLost (rstat r)"
  by (induction ps arbitrary: r) (simp_all add: count_delivered_def)

lemma sorted_span: "sorted_wrt (<) (d # ns) \<Longrightarrow> d + length ns \<le> last (d # (ns :: nat list))"
proof (induction ns arbitrary: d)
  case (Cons n ns)
  then have "n + length ns \<le> last (n # ns)" "d < n" using Cons.IH [of n] by auto
  then show ?case by (simp del: last.simps add: last_ConsR)
qed simp

lemma count_lost_num:
  assumes "map seqno ps = map num ns" "sorted_wrt (<) (d # ns)" "\<forall>i \<in> set ns. i < d + half"
  shows "count_lost (num d) ps n = (num (last (d # ns)), n + of_nat (last (d # ns) - d - length ns))"
  using assms
proof (induction ps arbitrary: ns d n)
  case (Cons p ps)
  then obtain m ns' where ns: "ns = m # ns'" "seqno p = num m" "map seqno ps = map num ns'"
    by (cases ns) auto
  have m: "d < m" "m < d + half" "close d m" using Cons.prems(2,3) ns(1) by (auto simp: close_def)
  then have u: "unat (Number_Distance (num d) (num m)) = m - d" using num_Distance by simp
  let ?w = "Number_Distance (num d) (num m)"
  have w: "(if ?w > 1 then n + ucast (?w - 1) else n) = n + of_nat (m - d - 1)"
  proof (cases "?w > 1")
    case True
    then have "unat (?w - 1) = m - d - 1" using u unat_sub [of 1 ?w] by (simp add: less_imp_le)
    then have "(ucast (?w - 1) :: u64) = of_nat (m - d - 1)" by (metis of_nat_unat)
    then show ?thesis using True by simp
  next
    case False
    then have "m - d \<le> 1" using u by (simp add: word_less_nat_alt)
    then show ?thesis using False by simp
  qed
  have l: "last (m # ns') - d - length ns = (m - d - 1) + (last (m # ns') - m - length ns')"
    using sorted_span [of m ns'] Cons.prems(2) ns(1) m(1) by (simp del: last.simps)
  have "\<forall>i \<in> set ns'. i < m + half" "sorted_wrt (<) (m # ns')" using Cons.prems(2,3) ns(1) m(1) by auto
  then have "count_lost (num m) ps N = (num (last (m # ns')), N + of_nat (last (m # ns') - m - length ns'))" for N
    using Cons.IH [OF ns(3)] by blast
  then have "count_lost (num d) (p # ps) n =
      (num (last (m # ns')), n + of_nat (m - d - 1) + of_nat (last (m # ns') - m - length ns'))"
    unfolding count_lost.simps Let_def ns(2) w .
  then show ?case unfolding ns(1) l [unfolded ns(1)] last_ConsR [OF list.distinct(2), of d m ns']
    by (simp only: of_nat_add add.assoc)
qed simp

definition ripe_count :: "u64 \<Rightarrow> receiver \<Rightarrow> nat" where
  "ripe_count now r = length (takeWhile (ripe now r) (rcvPacketList r))"

lemma ripe_take:
  "takeWhile (ripe now r) (rcvPacketList r) = take (ripe_count now r) (rcvPacketList r)"
  "dropWhile (ripe now r) (rcvPacketList r) = drop (ripe_count now r) (rcvPacketList r)"
  unfolding ripe_count_def by (rule takeWhile_eq_take, rule dropWhile_eq_drop)

lemma ripe_acked:
  assumes "rcv_represents r a" "recv_ok a" "i \<in> set (take (ripe_count now r) (sbuf a))"
  shows "i \<le> sack a"
proof -
  have m: "map seqno (take (ripe_count now r) (rcvPacketList r)) = map num (take (ripe_count now r) (sbuf a))"
    using assms(1) by (simp add: rcv_represents_def flip: take_map)
  have "num i \<in> set (map num (take (ripe_count now r) (sbuf a)))" using assms(3) by simp
  then obtain p where "p \<in> set (takeWhile (ripe now r) (rcvPacketList r))" "seqno p = num i"
    unfolding m [symmetric] ripe_take(1) by auto
  then have "Number_Lte (num i) (num (sack a))"
    using set_takeWhileD [of p "ripe now r"] assms(1) by (auto simp: ripe_def rcv_represents_def)
  moreover have "close i (sack a)"
    using recv_ok_window [OF assms(2)] assms(2,3) by (fastforce simp: recv_ok_def close_def dest: in_set_takeD)
  ultimately show ?thesis by (simp add: num_compare)
qed

lemma recv_ok_deliver:
  assumes "recv_ok a" "\<forall>i \<in> set (take k (sbuf a)). i \<le> sack a"
  shows "recv_ok (spec_deliver k a)"
proof (cases "take k (sbuf a) = []")
  case True
  then have "spec_deliver k a = a" by (auto simp: spec_deliver_def)
  then show ?thesis using assms(1) by simp
next
  case False
  let ?d = "last (take k (sbuf a))"
  have d: "?d \<in> set (take k (sbuf a))" using False by simp
  have split: "sbuf a = take k (sbuf a) @ drop k (sbuf a)" by simp
  have s: "sorted_wrt (<) (take k (sbuf a) @ drop k (sbuf a))" using assms(1) by (simp add: recv_ok_def)
  have b: "sdel a < ?d" "?d \<le> sack a" using assms d by (auto simp: recv_ok_def dest: in_set_takeD)
  have "\<forall>i \<in> set (drop k (sbuf a)). ?d < i" "sorted_wrt (<) (drop k (sbuf a))"
    using s d unfolding sorted_wrt_append by blast+
  moreover have "smax a = last (?d # drop k (sbuf a))"
    using assms(1) False by (subst (asm) split) (auto simp: recv_ok_def last_append)
  ultimately show ?thesis
    using assms(1) b False unfolding recv_ok_def spec_deliver_def
    by (simp del: last.simps add: last_ConsR)
qed

lemma Tick_deliver_num:
  assumes "rcv_represents r a" "recv_ok a" "receiver_Tick_deliver deliver now r c = (t, c')"
  defines "k \<equiv> ripe_count now r"
  shows "rcv_represents t (spec_deliver k a)"
    "c' = fold deliver (take k (rcvPacketList r)) c" "rcvPacketList t = drop k (rcvPacketList r)"
    "rPktBuf (rstat t) = rPktBuf (rstat r) - of_nat k"
    "rByteBuf (rstat t) = rByteBuf (rstat r) - sum_list (map pkt_Len (take k (rcvPacketList r)))"
    "rPktUnique (rstat t) = rPktUnique (rstat r)"
    "rPktLost (rstat t) = rPktLost (rstat r) + of_nat (sdel (spec_deliver k a) - sdel a - k)"
proof -
  let ?ps = "take k (rcvPacketList r)" and ?u = "fold count_delivered (take k (rcvPacketList r)) r"
  have len: "k \<le> length (rcvPacketList r)" by (simp add: k_def ripe_count_def length_takeWhile_le)
  have m: "map seqno ?ps = map num (take k (sbuf a))"
    using assms(1) by (simp add: rcv_represents_def flip: take_map)
  have lk: "length ?ps = k" "length (take k (sbuf a)) = k" using len m map_eq_imp_length_eq [OF m] by auto
  have lost: "count_lost (num (sdel a)) ?ps n = (num (last (sdel a # take k (sbuf a))),
      n + of_nat (last (sdel a # take k (sbuf a)) - sdel a - k))" for n
    using count_lost_num [OF m, of "sdel a" n] recv_ok_window [OF assms(2)] assms(2) lk
    by (auto simp del: last.simps simp: recv_ok_def sorted_wrt_take dest: in_set_takeD)
  have ld: "lastDeliveredSequenceNumber ?u = num (last (sdel a # take k (sbuf a)))"
    using assms(1) m fold_count_delivered(3) [of ?ps r] by (simp add: rcv_represents_def last_map)
  have zero: "Number_Distance (num i) (num i) = 0" for i by (simp add: Number_Distance_def Number_Equals_def)
  have t: "t = (if ?ps = [] then ?u else ?u\<lparr>rcvPacketList := drop k (rcvPacketList r), rstat := (rstat ?u)\<lparr>rPktLost :=
      rPktLost (rstat r) + of_nat (last (sdel a # take k (sbuf a)) - sdel a - k)\<rparr>\<rparr>)"
    and c: "c' = fold deliver ?ps c"
    using assms(1,3) lost ld zero unfolding receiver_Tick_deliver_def Let_def ripe_take k_def [symmetric]
    by (auto simp: rcv_represents_def fold_count_delivered split: if_splits)
  have e: "?ps = [] \<Longrightarrow> k = 0" using lk(1) by (metis list.size(3))
  have fields: "maxSeenSequenceNumber t = maxSeenSequenceNumber r" "lastACKSequenceNumber t = lastACKSequenceNumber r"
    "lastDeliveredSequenceNumber t = num (last (sdel a # take k (sbuf a)))"
    using ld by (simp_all del: last.simps add: t fold_count_delivered(4,5))
  show list: "rcvPacketList t = drop k (rcvPacketList r)"
    using e by (auto simp: t fold_count_delivered(6))
  show "rPktBuf (rstat t) = rPktBuf (rstat r) - of_nat k"
    "rByteBuf (rstat t) = rByteBuf (rstat r) - sum_list (map pkt_Len ?ps)"
    "rPktUnique (rstat t) = rPktUnique (rstat r)"
    using lk(1) by (simp_all add: t fold_count_delivered(1,2,7))
  show "rPktLost (rstat t) = rPktLost (rstat r) + of_nat (sdel (spec_deliver k a) - sdel a - k)"
    using e by (auto simp: t fold_count_delivered(8) spec_deliver_def)
  show "c' = fold deliver ?ps c" by (rule c)
  show "rcv_represents t (spec_deliver k a)"
    using assms(1) unfolding rcv_represents_def fields list
    by (simp del: last.simps add: spec_deliver_def flip: drop_map)
qed

end
