(* ===== verification/Live_Receive_Run.thy ===== *)
theory Live_Receive_Run
  imports Live_Receive
begin

text \<open>
  Executions of the live receiver: its critical sections as events, the invariant of every execution, and the
  properties of delivery, acknowledgement and loss reporting.
\<close>

section \<open>Runs of the receiver\<close>

text \<open>
  Callbacks that record what they are given, the critical sections as events, and the environment: packets
  carry sequence numbers that are less than half the range away from the last delivered one.
\<close>

record recv_out =
  out_acks :: "(Number \<times> bool) list"
  out_naks :: "Number list list"
  out_delivered :: "pkt list"

definition rec_ACK :: "Number \<Rightarrow> bool \<Rightarrow> recv_out \<Rightarrow> recv_out" where
  "rec_ACK n lite c = c\<lparr>out_acks := out_acks c @ [(n, lite)]\<rparr>"

definition rec_NAK :: "Number list \<Rightarrow> recv_out \<Rightarrow> recv_out" where
  "rec_NAK l c = c\<lparr>out_naks := out_naks c @ [l]\<rparr>"

definition rec_deliver :: "pkt \<Rightarrow> recv_out \<Rightarrow> recv_out" where
  "rec_deliver p c = c\<lparr>out_delivered := out_delivered c @ [p]\<rparr>"

datatype recv_event = RPush int pkt | RTickACK u64 | RTickNAK u64 | RTickDeliver u64 | RTickRate u64
  | RSetNAKInterval u64

fun recv_step :: "receiver \<times> recv_out \<Rightarrow> recv_event \<Rightarrow> receiver \<times> recv_out" where
  "recv_step (r, c) (RPush wall p) = receiver_Push rec_NAK wall (Some p) r c"
| "recv_step (r, c) (RTickACK now) = receiver_Tick_ack rec_ACK now r c"
| "recv_step (r, c) (RTickNAK now) = receiver_Tick_nak rec_NAK now r c"
| "recv_step (r, c) (RTickDeliver now) = receiver_Tick_deliver rec_deliver now r c"
| "recv_step (r, c) (RTickRate now) = (receiver_Tick_rate now r, c)"
| "recv_step (r, c) (RSetNAKInterval n) = (receiver_SetNAKInterval n r, c)"

fun recv_event_ok :: "receiver \<times> recv_out \<Rightarrow> recv_event \<Rightarrow> bool" where
  "recv_event_ok (r, c) (RPush wall p) =
     (wf_seq (seqno p) \<and> Number_Distance (seqno p) (lastDeliveredSequenceNumber r) < 0x3FFFFFFF)"
| "recv_event_ok (r, c) e = True"

definition trace_ok :: "nat \<Rightarrow> recv_spec \<Rightarrow> nat list \<Rightarrow> nat list \<Rightarrow> receiver \<Rightarrow> recv_out \<Rightarrow> bool" where
  "trace_ok d0 a ns as r c \<longleftrightarrow> rcv_represents r a \<and> recv_ok a \<and> rcv_counted r \<and> sdel a = last (d0 # ns)
     \<and> map seqno (out_delivered c) = map num ns \<and> sorted_wrt (<) (d0 # ns)
     \<and> map fst (out_acks c) = map num as \<and> sorted as \<and> (\<forall>n \<in> set as. n \<le> Suc (sack a))
     \<and> rPktLost (rstat r) = of_nat (sdel a - d0 - length ns)
     \<and> rPktUnique (rstat r) = of_nat (length (out_delivered c) + length (rcvPacketList r))"

definition recv_inv :: "nat \<Rightarrow> receiver \<times> recv_out \<Rightarrow> bool" where
  "recv_inv d0 st \<longleftrightarrow> (\<exists>a ns as. trace_ok d0 a ns as (fst st) (snd st))"

lemma trace_ok_same:
  "trace_ok d0 a ns as r c \<Longrightarrow> same_rcv r t \<Longrightarrow> out_delivered c' = out_delivered c \<Longrightarrow> out_acks c' = out_acks c
     \<Longrightarrow> trace_ok d0 a ns as t c'"
  using rcv_represents_same [of r a t] rcv_counted_same [of r t] by (auto simp: trace_ok_def same_rcv_def)

lemma trace_ok_Push:
  assumes "trace_ok d0 a ns as r c" "recv_event_ok (r, c) (RPush wall p)"
  shows "\<exists>b. trace_ok d0 b ns as (fst (recv_step (r, c) (RPush wall p))) (snd (recv_step (r, c) (RPush wall p)))"
proof -
  obtain t c' where t: "receiver_Push rec_NAK wall (Some p) r c = (t, c')" by fastforce
  have a: "rcv_represents r a" "recv_ok a" using assms(1) by (simp_all add: trace_ok_def)
  have "half \<le> sdel a" "unat (Number_Distance (seqno p) (num (sdel a))) < half" "wf_seq (seqno p)"
    using assms(2) a by (simp_all add: recv_ok_def rcv_represents_def word_less_nat_alt half_def)
  then obtain i where i: "seqno p = num i" "close i (sdel a)" using num_near by blast
  note push = Push_arrives [OF a i t]
  have c': "out_delivered c' = out_delivered c" "out_acks c' = out_acks c"
    using push by (simp_all add: rec_NAK_def)
  have "trace_ok d0 (spec_arrive i a) ns as t c'"
  proof (cases "i \<le> sdel a \<or> i < sack a \<or> i \<in> set (sbuf a)")
    case True
    then have s: "same_rcv r t" using push by simp
    have "recv_ok (spec_arrive i a)" using recv_ok_arrive [OF a(2)] i(2) by (simp add: close_def)
    moreover have "sdel (spec_arrive i a) = sdel a" "sack (spec_arrive i a) = sack a"
      by (simp_all add: spec_arrive_def)
    ultimately show ?thesis
      using assms(1) c' s push rcv_counted_same [OF _ s] by (auto simp: trace_ok_def same_rcv_def)
  next
    case False
    then have b: "buffered_one p r t" using push by simp
    then have "length (rcvPacketList t) = Suc (length (rcvPacketList r))"
      using mset_eq_length [of "rcvPacketList t" "p # rcvPacketList r"] by (simp add: buffered_one_def)
    moreover have "recv_ok (spec_arrive i a)" using recv_ok_arrive [OF a(2)] i(2) by (simp add: close_def)
    moreover have "sdel (spec_arrive i a) = sdel a" "sack (spec_arrive i a) = sack a"
      by (simp_all add: spec_arrive_def)
    ultimately show ?thesis
      using assms(1) c' b push rcv_counted_buffered [OF _ b] by (auto simp: trace_ok_def buffered_one_def)
  qed
  then show ?thesis using t by auto
qed

lemma trace_ok_ACK:
  assumes "trace_ok d0 a ns as r c"
  shows "\<exists>b bs. trace_ok d0 b ns bs (fst (recv_step (r, c) (RTickACK now))) (snd (recv_step (r, c) (RTickACK now)))"
proof (cases "receiver_periodicACK now r")
  case (Pair res t)
  have a: "rcv_represents r a" "recv_ok a" using assms by (simp_all add: trace_ok_def)
  show ?thesis
  proof (cases res)
    case None
    then show ?thesis using Pair assms periodicACK_None [of now r t] by (auto simp: receiver_Tick_ack_def)
  next
    case (Some x)
    obtain n lite where x: "x = (n, lite)" by fastforce
    note ack = periodicACK_num [OF a Pair [unfolded Some x]]
    have "sack a \<le> spec_acked now r a" by (simp add: spec_acked_def ack_no_mono)
    then have "trace_ok d0 (a\<lparr>sack := spec_acked now r a\<rparr>) ns (as @ [Suc (spec_acked now r a)]) t (rec_ACK n lite c)"
      using assms ack recv_ok_acked [OF a, of now]
      by (fastforce simp: trace_ok_def rec_ACK_def sorted_append rcv_counted_def)
    then show ?thesis using Pair Some x by (auto simp: receiver_Tick_ack_def)
  qed
qed

lemma trace_ok_deliver:
  assumes "trace_ok d0 a ns as r c"
  shows "\<exists>b ms. trace_ok d0 b ms as (fst (recv_step (r, c) (RTickDeliver now))) (snd (recv_step (r, c) (RTickDeliver now)))"
proof -
  define k where "k = ripe_count now r"
  obtain t c' where t: "receiver_Tick_deliver rec_deliver now r c = (t, c')" by fastforce
  have a: "rcv_represents r a" "recv_ok a" using assms by (simp_all add: trace_ok_def)
  note del = Tick_deliver_num [OF a t, folded k_def]
  have "out_delivered (fold rec_deliver ps c) = out_delivered c @ ps \<and> out_acks (fold rec_deliver ps c) = out_acks c" for ps
    by (induction ps arbitrary: c) (simp_all add: rec_deliver_def)
  then have c': "out_delivered c' = out_delivered c @ take k (rcvPacketList r)" "out_acks c' = out_acks c"
    using del(2) by simp_all
  have ok: "recv_ok (spec_deliver k a)"
    using recv_ok_deliver [OF a(2)] ripe_acked [OF a] by (simp add: k_def)
  let ?d = "sdel (spec_deliver k a)" and ?b = "take k (sbuf a)"
  have d: "?d = last (sdel a # ?b)" "sack (spec_deliver k a) = sack a" by (simp_all add: spec_deliver_def)
  have s: "sorted_wrt (<) (sdel a # ?b)" using a(2) by (auto simp: recv_ok_def sorted_wrt_take dest: in_set_takeD)
  have k: "length ?b = k" "k \<le> length (rcvPacketList r)"
    using a(1) map_eq_imp_length_eq [of seqno "rcvPacketList r" num "sbuf a"]
      length_takeWhile_le [of "ripe now r" "rcvPacketList r"]
    by (auto simp: rcv_represents_def k_def ripe_count_def min_def)
  have le: "sdel a + k \<le> ?d" "\<forall>i \<in> set ?b. sdel a < i \<and> i \<le> ?d"
    using sorted_span [OF s] sorted_last [OF s] s k(1) by (auto simp del: last.simps simp: d)
  have ns: "sorted_wrt (<) (d0 # ns)" "sdel a = last (d0 # ns)"
    using assms unfolding trace_ok_def by blast+
  have n0: "d0 + length ns \<le> sdel a" "\<forall>n \<in> set (d0 # ns). n \<le> sdel a"
    using sorted_span [OF ns(1)] sorted_last [OF ns(1)] ns(2) by (simp_all del: last.simps)
  have "of_nat (sdel a - d0 - length ns) + of_nat (?d - sdel a - k) = (of_nat (?d - d0 - (length ns + k)) :: u64)"
    unfolding of_nat_add [symmetric] using le(1) n0(1) by (intro arg_cong [where f = of_nat]) linarith
  then have lost: "rPktLost (rstat t) = of_nat (?d - d0 - length (ns @ ?b))"
    using del(7) assms k(1) by (simp add: trace_ok_def)
  have "rcv_counted t"
    using assms del(3-5) k(2) sum_list_append [of "map pkt_Len (take k (rcvPacketList r))" "map pkt_Len (drop k (rcvPacketList r))"]
    by (simp add: trace_ok_def rcv_counted_def of_nat_diff flip: map_append)
  moreover have "map seqno (out_delivered c') = map num (ns @ ?b)"
    using assms a(1) c'(1) by (simp add: trace_ok_def rcv_represents_def flip: take_map)
  moreover have "sorted_wrt (<) (d0 # ns @ ?b)"
    using ns(1) n0(2) le(2) s sorted_wrt_append [of "(<)" "d0 # ns" ?b] by fastforce
  moreover have "?d = last (d0 # ns @ ?b)"
    using d(1) ns(2) by (cases "?b = []") (simp_all add: last_append)
  ultimately have "trace_ok d0 (spec_deliver k a) (ns @ ?b) as t c'"
    using assms del(1,3,6) ok lost c' k d(2) unfolding trace_ok_def by simp
  then show ?thesis using t by auto
qed

lemma same_rcv_Tick_rate: "same_rcv r (receiver_Tick_rate now r)"
  by (simp add: same_rcv_def receiver_Tick_rate_def Let_def)

lemma recv_step_inv: "recv_inv d0 st \<Longrightarrow> recv_event_ok st e \<Longrightarrow> recv_inv d0 (recv_step st e)"
proof -
  assume i: "recv_inv d0 st" and ok: "recv_event_ok st e"
  obtain r c where st: "st = (r, c)" by fastforce
  then obtain a ns as where t: "trace_ok d0 a ns as r c" using i by (auto simp: recv_inv_def)
  have same: "recv_inv d0 (u, c')" if "same_rcv r u" "out_delivered c' = out_delivered c" "out_acks c' = out_acks c" for u c'
    using trace_ok_same [OF t that] by (auto simp: recv_inv_def)
  show ?thesis
  proof (cases e)
    case (RPush wall p)
    then show ?thesis using trace_ok_Push [OF t, of wall p] ok unfolding st recv_inv_def by blast
  next
    case (RTickACK now)
    then show ?thesis using trace_ok_ACK [OF t, of now] unfolding st recv_inv_def by blast
  next
    case (RTickDeliver now)
    then show ?thesis using trace_ok_deliver [OF t, of now] unfolding st recv_inv_def by blast
  next
    case (RTickNAK now)
    have "same_rcv r (snd (receiver_periodicNAK now r))" by (simp add: receiver_periodicNAK_def same_rcv_def)
    then show ?thesis unfolding st RTickNAK recv_step.simps receiver_Tick_nak_def
      by (auto simp: rec_NAK_def split: prod.splits intro!: same)
  next
    case (RTickRate now)
    then show ?thesis using same_rcv_Tick_rate st by (auto intro!: same)
  next
    case (RSetNAKInterval n)
    then show ?thesis using st by (auto simp: receiver_SetNAKInterval_def same_rcv_def intro!: same)
  qed
qed

interpretation recv: transition_system recv_step recv_event_ok "recv_inv d0" for d0
  by unfold_locales (rule recv_step_inv)

definition first_number :: "Number \<Rightarrow> nat" where
  "first_number n = val n + 2147483648"

lemma num_first: "wf_seq n \<Longrightarrow> num (first_number n) = n"
  using num_val [of n] by (simp add: first_number_def num_def)

definition no_output :: recv_out where
  "no_output = \<lparr>out_acks = [], out_naks = [], out_delivered = []\<rparr>"

lemma recv_inv_New:
  assumes "wf_seq (rcInitialSequenceNumber cfg)"
  shows "recv_inv (first_number (rcInitialSequenceNumber cfg) - 1) (NewReceiver cfg, no_output)"
proof -
  define d where "d = first_number (rcInitialSequenceNumber cfg) - 1"
  have "Suc d = first_number (rcInitialSequenceNumber cfg)" by (simp add: d_def first_number_def)
  then have d: "Number_Dec (rcInitialSequenceNumber cfg) = num d"
    using num_Dec [of d] num_first [OF assms] by (simp only:)
  have h: "half \<le> d" by (simp add: d_def first_number_def half_def)
  have "trace_ok d \<lparr>sdel = d, sack = d, smax = d, sbuf = []\<rparr> [] [] (NewReceiver cfg) no_output"
    using d h half_pos by (simp add: trace_ok_def rcv_represents_def recv_ok_def rcv_counted_def NewReceiver_def
      no_output_def zero_ReceiveStats_def)
  then show ?thesis unfolding d_def [symmetric] recv_inv_def fst_conv snd_conv by (intro exI)
qed

text \<open>Packets are neither made up nor changed.\<close>

definition pushed :: "recv_event list \<Rightarrow> pkt set" where
  "pushed es = {p. \<exists>wall. RPush wall p \<in> set es}"

lemma rcv_place_set: "rcv_place p es = InsertBefore l \<Longrightarrow> set l = insert p (set es)"
proof (induction es arbitrary: l)
  case (Cons e es)
  show ?case
  proof (cases "seqno e = seqno p \<or> Number_Gt (seqno e) (seqno p)")
    case False
    then obtain m where "rcv_place p es = InsertBefore m" "l = e # m"
      using Cons.prems by (cases "rcv_place p es") simp_all
    then show ?thesis using Cons.IH by (simp add: insert_commute)
  qed (use Cons.prems in \<open>auto split: if_splits\<close>)
qed simp

lemma Push_set:
  "set (rcvPacketList (fst (receiver_Push sendNAK wall (Some p) r c))) \<subseteq> insert p (set (rcvPacketList r))"
proof -
  have u: "rcvPacketList (rcv_count p (rcv_probe wall p r)) = rcvPacketList r"
    using same_rcv_prologue by (simp add: same_rcv_def)
  then have "set (rcvPacketList (rcv_out_of_order p (rcv_count p (rcv_probe wall p r)))) \<subseteq> insert p (set (rcvPacketList r))"
    by (auto simp: rcv_out_of_order_def count_dropped_def dest: rcv_place_set split: place.splits)
  moreover have "rcvPacketList (count_dropped n t) = rcvPacketList t" "rcvPacketList (count_belated n t) = rcvPacketList t"
    "rcvPacketList (rcv_append p t) = rcvPacketList t @ [p]" "rcvPacketList (rcv_gap p t) = rcvPacketList t" for n t
    by (simp_all add: count_dropped_def count_belated_def rcv_append_def count_buffered_def rcv_gap_def Let_def)
  ultimately show ?thesis
    using u unfolding receiver_Push_def Let_def by (simp add: subset_insertI)
qed

lemma fold_rec_deliver:
  "out_delivered (fold rec_deliver ps c) = out_delivered c @ ps \<and> out_acks (fold rec_deliver ps c) = out_acks c
     \<and> out_naks (fold rec_deliver ps c) = out_naks c"
  by (induction ps arbitrary: c) (simp_all add: rec_deliver_def)

lemma dropWhile_none: "takeWhile P xs = [] \<Longrightarrow> dropWhile P xs = xs"
  by (metis append_Nil takeWhile_dropWhile_id)

lemma Tick_deliver_exact:
  "receiver_Tick_deliver deliver now r c = (t, c') \<Longrightarrow>
     c' = fold deliver (takeWhile (ripe now r) (rcvPacketList r)) c
     \<and> rcvPacketList t = dropWhile (ripe now r) (rcvPacketList r)"
  using dropWhile_none [of "ripe now r" "rcvPacketList r"]
  by (cases "takeWhile (ripe now r) (rcvPacketList r) = []")
    (auto simp: receiver_Tick_deliver_def Let_def fold_count_delivered split: prod.splits)

definition held :: "receiver \<times> recv_out \<Rightarrow> pkt set" where
  "held st = set (rcvPacketList (fst st)) \<union> set (out_delivered (snd st))"

lemma held_step: "held (recv_step st e) \<subseteq> held st \<union> pushed [e]"
proof -
  obtain r c where st: "st = (r, c)" by fastforce
  show ?thesis
  proof (cases e)
    case (RPush wall p)
    have "out_delivered (snd (receiver_Push rec_NAK wall (Some p) r c)) = out_delivered c"
      by (simp add: receiver_Push_def rec_NAK_def Let_def)
    then show ?thesis
      using Push_set [of rec_NAK wall p r c] RPush st by (auto simp: held_def pushed_def)
  next
    case (RTickACK now)
    then show ?thesis
      by (auto simp: st held_def receiver_Tick_ack_def receiver_periodicACK_def rec_ACK_def Let_def
          split: prod.splits option.splits if_splits)
  next
    case (RTickDeliver now)
    then show ?thesis
      using Tick_deliver_exact [of rec_deliver now r c] fold_rec_deliver
      by (cases "receiver_Tick_deliver rec_deliver now r c")
        (auto simp: st held_def dest: set_takeWhileD set_dropWhileD)
  qed (auto simp: st held_def receiver_Tick_nak_def receiver_periodicNAK_def rec_NAK_def
      receiver_Tick_rate_def receiver_SetNAKInterval_def Let_def)
qed

lemma held_run: "held (run recv_step st es) \<subseteq> held st \<union> pushed es"
proof (induction es arbitrary: st)
  case (Cons e es)
  have "pushed (e # es) = pushed [e] \<union> pushed es" by (auto simp: pushed_def)
  then show ?case using Cons [of "recv_step st e"] held_step [of st e] by auto
qed simp

lemma recv_ok_sorted:
  assumes "rcv_represents r a" "recv_ok a"
  shows "sorted_wrt (\<lambda>p q. Number_Lt (seqno p) (seqno q)) (rcvPacketList r)"
proof -
  have "close i j" if "i \<in> set (sbuf a)" "j \<in> set (sbuf a)" for i j
    using recv_ok_window [OF assms(2) that(1)] recv_ok_window [OF assms(2) that(2)] by (simp add: close_def)
  moreover have "sorted_wrt (<) (sbuf a)" using assms(2) by (simp add: recv_ok_def)
  ultimately have "sorted_wrt (\<lambda>i j. Number_Lt (num i) (num j)) (sbuf a)"
    using num_Lt by (metis (mono_tags, lifting) sorted_wrt_mono_rel)
  then have "sorted_wrt Number_Lt (map num (sbuf a))" by (simp only: sorted_wrt_map)
  then have "sorted_wrt Number_Lt (map seqno (rcvPacketList r))" using assms(1) by (simp add: rcv_represents_def)
  then show ?thesis by (simp only: sorted_wrt_map)
qed

section \<open>Properties\<close>

definition sample_recv_config :: ReceiveConfig where
  "sample_recv_config = \<lparr>rcInitialSequenceNumber = Number_New 0x7FFFFFFF MAX_SEQUENCENUMBER,
     rcPeriodicACKInterval = 10, rcPeriodicNAKInterval = 20\<rparr>"

definition numbered :: "Number \<Rightarrow> u64 \<Rightarrow> bytes \<Rightarrow> pkt" where
  "numbered n t d = (sample_packet t d)\<lparr>header := (header (sample_packet t d))\<lparr>PacketSequenceNumber := n\<rparr>\<rparr>"

definition sample_arrivals :: "recv_event list" where
  "sample_arrivals = [RPush 0 (numbered (Number_New 0x7FFFFFFF MAX_SEQUENCENUMBER) 100 [1]),
     RPush 1000 (numbered (Number_New 1 MAX_SEQUENCENUMBER) 120 [3]), RTickACK 50, RTickNAK 50,
     RPush 2000 (numbered (Number_New 0 MAX_SEQUENCENUMBER) 110 [2]), RTickACK 200, RTickDeliver 200]"

lemma recv_step_lastDelivered:
  "(case e of RTickDeliver now \<Rightarrow> False | _ \<Rightarrow> True) \<Longrightarrow>
     lastDeliveredSequenceNumber (fst (recv_step st e)) = lastDeliveredSequenceNumber (fst st)"
proof (cases st)
  case (Pair r c)
  have p: "lastDeliveredSequenceNumber (rcv_count p (rcv_probe wall p r)) = lastDeliveredSequenceNumber r" for wall p
    using same_rcv_prologue by (simp add: same_rcv_def)
  have o: "lastDeliveredSequenceNumber (rcv_out_of_order p u) = lastDeliveredSequenceNumber u" for p u
    by (cases "rcv_place p (rcvPacketList u)")
      (simp_all add: rcv_out_of_order_def count_dropped_def count_late_def count_buffered_def)
  assume "case e of RTickDeliver now \<Rightarrow> False | _ \<Rightarrow> True"
  then show ?thesis
    using p o by (cases e) (auto simp: Pair receiver_Push_def rcv_append_def rcv_gap_def count_dropped_def
        count_belated_def count_buffered_def receiver_Tick_ack_def receiver_periodicACK_def
        receiver_Tick_nak_def receiver_periodicNAK_def receiver_Tick_rate_def receiver_SetNAKInterval_def
        Let_def split: prod.splits option.splits if_splits)
qed

lemma recv_event_ok_alt:
  "recv_event_ok st (RPush wall p) = (wf_seq (seqno p)
     \<and> Number_Distance (seqno p) (lastDeliveredSequenceNumber (fst st)) < 0x3FFFFFFF)"
  "recv_event_ok st (RTickACK n) = True" "recv_event_ok st (RTickNAK n) = True"
  "recv_event_ok st (RTickDeliver n) = True"
  by (cases st, simp)+

lemma sample_arrivals_ok:
  "run_ok recv_step recv_event_ok (NewReceiver sample_recv_config, no_output) sample_arrivals"
  unfolding sample_arrivals_def run_ok.simps recv_event_ok_alt
  by (simp only: recv_step_lastDelivered recv_event.case fst_conv simp_thms)
    (simp add: NewReceiver_def sample_recv_config_def numbered_def wf_seq_def wf_Number_def
      number_eval Number_Dec_def word_less_nat_alt word_le_nat_alt)



text \<open>
  C3. The receiver refines its specification over unbounded packet numbers: a packet that arrives is ignored
  if it was delivered, acknowledged or buffered before and is otherwise inserted at its place; exactly a
  packet that leaves a gap behind the highest number seen is reported at once, with the bounds of the gap;
  and delivery removes the acknowledged packets at the front whose time has come.
\<close>

theorem receiver_refines:
  assumes "rcv_represents r a" and "recv_ok a" and "seqno p = num i" and "close i (sdel a)"
  shows "rcv_represents (fst (receiver_Push rec_NAK wall (Some p) r c)) (spec_arrive i a)
    \<and> out_naks (snd (receiver_Push rec_NAK wall (Some p) r c)) =
        out_naks c @ (if Suc (smax a) < i then [[num (Suc (smax a)), num (i - 1)]] else [])
    \<and> rcv_represents (fst (receiver_Tick_deliver rec_deliver now r c)) (spec_deliver (ripe_count now r) a)
    \<and> recv_ok (spec_arrive i a) \<and> recv_ok (spec_deliver (ripe_count now r) a)"
proof -
  obtain t c' where t: "receiver_Push rec_NAK wall (Some p) r c = (t, c')" by fastforce
  obtain u d' where u: "receiver_Tick_deliver rec_deliver now r c = (u, d')" by fastforce
  show ?thesis
    using Push_arrives [OF assms t] Tick_deliver_num(1) [OF assms(1,2) u] t u recv_ok_arrive [OF assms(2), of i]
      recv_ok_deliver [OF assms(2)] ripe_acked [OF assms(1,2)] assms(4)
    by (simp add: rec_NAK_def close_def)
qed

theorem receiver_refines_witness:
  "rcv_represents (NewReceiver (sample_recv_config\<lparr>rcInitialSequenceNumber := num (half + 1)\<rparr>))
      \<lparr>sdel = half, sack = half, smax = half, sbuf = []\<rparr>
   \<and> out_naks (snd (receiver_Push rec_NAK 0 (Some (numbered (num (half + 3)) 7 [1]))
       (NewReceiver (sample_recv_config\<lparr>rcInitialSequenceNumber := num (half + 1)\<rparr>)) no_output))
     = [[num (half + 1), num (half + 2)]]"
proof -
  let ?r = "NewReceiver (sample_recv_config\<lparr>rcInitialSequenceNumber := num (half + 1)\<rparr>)"
  let ?a = "\<lparr>sdel = half, sack = half, smax = half, sbuf = []\<rparr>"
  have r: "rcv_represents ?r ?a" by (simp add: rcv_represents_def NewReceiver_def)
  have a: "recv_ok ?a" using half_pos by (simp add: recv_ok_def)
  have "seqno (numbered (num (half + 3)) 7 [1]) = num (half + 3)" "close (half + 3) (sdel ?a)"
    by (simp_all add: numbered_def close_def half_def)
  from receiver_refines [OF r a this, of 0 no_output] r show ?thesis
    by (simp add: no_output_def numeral_3_eq_3)
qed

text \<open>
  C11. An acknowledgement never claims a packet that is still missing and not yet overdue: every packet number
  between the previous and the new acknowledgement is buffered, or a later acknowledged packet has already
  reached its delivery time. The acknowledgement never goes back, ends at a buffered packet when it moves,
  and goes as far as possible: the next buffered packet is neither the next number nor due.
\<close>

theorem receiver_ACK_sound:
  assumes "rcv_represents r a" and "recv_ok a" and "receiver_periodicACK now r = (Some (n, lite), t)"
  shows "\<exists>b. n = num (Suc b) \<and> lastACKSequenceNumber t = num b \<and> sack a \<le> b
    \<and> (b = sack a \<or> b \<in> set (sbuf a))
    \<and> (\<forall>i. sack a < i \<and> i \<le> b \<longrightarrow> i \<in> set (sbuf a)
         \<or> (\<exists>j p. (j, p) \<in> set (zip (sbuf a) (rcvPacketList r)) \<and> i < j \<and> j \<le> b \<and> tsbpd p \<le> now))
    \<and> (\<forall>j p xs. dropWhile (\<lambda>x. fst x \<le> b) (zip (sbuf a) (rcvPacketList r)) = (j, p) # xs
         \<longrightarrow> j \<noteq> Suc b \<and> now < tsbpd p)"
proof -
  let ?zs = "zip (sbuf a) (rcvPacketList r)" and ?b = "spec_acked now r a"
  let ?f = "\<lambda>(j, p). (j, tsbpd p \<le> now)"
  have m: "map seqno (rcvPacketList r) = map num (sbuf a)" using assms(1) by (simp add: rcv_represents_def)
  have fl: "flagged now (rcvPacketList r) (sbuf a) = map ?f ?zs"
    by (simp add: flagged_def zip_map2 case_prod_unfold)
  note ack = periodicACK_num [OF assms]
  have stop: "j \<noteq> Suc ?b \<and> now < tsbpd p" if d: "dropWhile (\<lambda>x. fst x \<le> ?b) ?zs = (j, p) # xs" for j p xs
  proof -
    have "dropWhile (\<lambda>x. fst x \<le> ?b) (map ?f ?zs) = map ?f (dropWhile (\<lambda>x. fst x \<le> ?b) ?zs)"
      by (simp add: dropWhile_map o_def case_prod_unfold)
    then have "dropWhile (\<lambda>x. fst x \<le> ?b) (flagged now (rcvPacketList r) (sbuf a)) = (j, tsbpd p \<le> now) # map ?f xs"
      using d fl by simp
    then show ?thesis
      using ack_no_stops [of "flagged now (rcvPacketList r) (sbuf a)" "sack a"] set_flagged(2) [OF m] assms(2)
      by (auto simp: spec_acked_def recv_ok_def)
  qed
  have "i \<in> set (sbuf a) \<or> (\<exists>j p. (j, p) \<in> set ?zs \<and> i < j \<and> j \<le> ?b \<and> tsbpd p \<le> now)"
    if i: "sack a < i" "i \<le> ?b" for i
    using ack_no_passed [OF i(1), of "flagged now (rcvPacketList r) (sbuf a)"] i(2) set_flagged(1) [OF m, of now]
    unfolding spec_acked_def fl by auto
  moreover have "?b = sack a \<or> ?b \<in> set (sbuf a)" "sack a \<le> ?b"
    using ack_no_mem ack_no_mono set_flagged(1) [OF m, of now] unfolding spec_acked_def by blast+
  ultimately show ?thesis
    using ack stop by (intro exI [of _ ?b]) (auto simp: rcv_represents_def)
qed

lemma periodicACK_due:
  "\<not> now - lastPeriodicACK r < periodicACKInterval r \<Longrightarrow> \<exists>n lite t. receiver_periodicACK now r = (Some (n, lite), t)"
  by (auto simp: receiver_periodicACK_def Let_def case_prod_unfold)

definition sample_receiver :: receiver where
  "sample_receiver = fst (receiver_Push rec_NAK 0 (Some (numbered (num (half + 3)) 7 [1]))
     (NewReceiver (sample_recv_config\<lparr>rcInitialSequenceNumber := num (half + 1)\<rparr>)) no_output)"

definition sample_recv_spec :: recv_spec where
  "sample_recv_spec = \<lparr>sdel = half, sack = half, smax = half + 3, sbuf = [half + 3]\<rparr>"

lemma sample_receiver_represents: "rcv_represents sample_receiver sample_recv_spec" "recv_ok sample_recv_spec"
proof -
  let ?r = "NewReceiver (sample_recv_config\<lparr>rcInitialSequenceNumber := num (half + 1)\<rparr>)"
  let ?a = "\<lparr>sdel = half, sack = half, smax = half, sbuf = []\<rparr>" and ?p = "numbered (num (half + 3)) 7 [1]"
  have r: "rcv_represents ?r ?a" by (simp add: rcv_represents_def NewReceiver_def)
  have a: "recv_ok ?a" using half_pos by (simp add: recv_ok_def)
  have p: "seqno ?p = num (half + 3)" "close (half + 3) (sdel ?a)" by (simp_all add: numbered_def close_def half_def)
  have "spec_arrive (half + 3) ?a = sample_recv_spec" by (simp add: spec_arrive_def add_no_def sample_recv_spec_def)
  then show "rcv_represents sample_receiver sample_recv_spec" "recv_ok sample_recv_spec"
    using Push_arrives [OF r a p surjective_pairing] recv_ok_arrive [OF a, of "half + 3"]
    unfolding sample_receiver_def by (metis, simp add: half_def)
qed

lemma sample_receiver_fields:
  "lastPeriodicNAK sample_receiver = 0" "periodicNAKInterval sample_receiver = 20"
  "lastPeriodicACK sample_receiver = 0" "periodicACKInterval sample_receiver = 10"
  "rcvPacketList sample_receiver = [numbered (num (half + 3)) 7 [1]]"
proof -
  have "close (half + 3) half" "close (half + 3) (Suc half)" by (simp_all add: close_def half_def)
  then have "\<not> Number_Lte (num (half + 3)) (num half)" "\<not> Number_Lt (num (half + 3)) (num half)"
    "\<not> Number_Equals (num (half + 3)) (num (Suc half))" by (simp_all add: num_compare)
  then show "lastPeriodicNAK sample_receiver = 0" "periodicNAKInterval sample_receiver = 20"
  "lastPeriodicACK sample_receiver = 0" "periodicACKInterval sample_receiver = 10"
  "rcvPacketList sample_receiver = [numbered (num (half + 3)) 7 [1]]"
    by (simp_all add: sample_receiver_def receiver_Push_def rcv_append_def rcv_gap_def count_buffered_def Let_def
      rcv_count_def rcv_probe_def NewReceiver_def sample_recv_config_def numbered_def)
qed

theorem receiver_ACK_sound_witness:
  "\<exists>n lite t b. receiver_periodicACK 100 sample_receiver = (Some (n, lite), t) \<and> n = num (Suc b)
     \<and> half \<le> b \<and> (b = half \<or> b = half + 3)"
proof -
  obtain n lite t where "receiver_periodicACK 100 sample_receiver = (Some (n, lite), t)"
    using periodicACK_due [of 100 sample_receiver] by (auto simp: sample_receiver_fields)
  with receiver_ACK_sound [OF sample_receiver_represents this] show ?thesis
    by (auto simp: sample_recv_spec_def)
qed

lemma receiver_NAK_gaps:
  assumes "rcv_represents r a" and "recv_ok a" and "\<not> now - lastPeriodicNAK r < periodicNAKInterval r"
    and "rs = gaps (sbuf a) (sack a)"
  shows "fst (receiver_periodicNAK now r) = range_list rs
    \<and> (\<forall>i. (\<exists>(x, y) \<in> set rs. x \<le> i \<and> i \<le> y) \<longleftrightarrow> sack a < i \<and> i < smax a \<and> i \<notin> set (sbuf a))
    \<and> (\<forall>(x, y) \<in> set rs. x \<le> y) \<and> sorted_wrt (\<lambda>r s. Suc (snd r) < fst s) rs"
proof -
  let ?rs = "gaps (sbuf a) (sack a)"
  have s: "sorted_wrt (<) (sbuf a)" using assms(2) by (simp add: recv_ok_def)
  have top: "(\<exists>j \<in> set (sbuf a). i < j) \<longleftrightarrow> i < smax a" if i: "sack a < i" for i
  proof
    assume "i < smax a"
    moreover have "sbuf a \<noteq> []" using assms(2) i \<open>i < smax a\<close> by (auto simp: recv_ok_def)
    ultimately show "\<exists>j \<in> set (sbuf a). i < j" using assms(2) last_in_set [of "sbuf a"] by (auto simp: recv_ok_def)
  qed (use recv_ok_le [OF assms(2)] less_le_trans in blast)
  have 1: "fst (receiver_periodicNAK now r) = range_list ?rs"
    using assms(1,3) nak_scan_num [of "rcvPacketList r" "sbuf a" "sdel a" "sack a"] recv_ok_window [OF assms(2)] assms(2)
    by (auto simp: receiver_periodicNAK_def rcv_represents_def recv_ok_def)
  have 2: "(\<exists>(x, y) \<in> set ?rs. x \<le> i \<and> i \<le> y) \<longleftrightarrow> sack a < i \<and> i < smax a \<and> i \<notin> set (sbuf a)" for i
    using gaps_cover [OF s, of "sack a" i] top [of i] by blast
  have 3: "\<forall>(x, y) \<in> set ?rs. x \<le> y" using gaps_bounds [OF s] by blast
  show ?thesis unfolding assms(4) using 1 2 3 gaps_separated [OF s, of "sack a"] by blast
qed

text \<open>
  C12. The periodic loss report lists, as ranges in increasing order that are separated by received packets,
  exactly the packet numbers after the last acknowledged one that are below the highest buffered packet and
  have not arrived.
\<close>

theorem receiver_NAK_exact:
  assumes "rcv_represents r a" and "recv_ok a" and "\<not> now - lastPeriodicNAK r < periodicNAKInterval r"
  shows "\<exists>rs. fst (receiver_periodicNAK now r) = range_list rs
    \<and> (\<forall>i. (\<exists>(x, y) \<in> set rs. x \<le> i \<and> i \<le> y) \<longleftrightarrow> sack a < i \<and> i < smax a \<and> i \<notin> set (sbuf a))
    \<and> (\<forall>(x, y) \<in> set rs. x \<le> y) \<and> sorted_wrt (\<lambda>r s. Suc (snd r) < fst s) rs"
  using receiver_NAK_gaps [OF assms refl] by blast

theorem receiver_NAK_exact_witness:
  "\<exists>rs. fst (receiver_periodicNAK 100 sample_receiver) = range_list rs
    \<and> (\<forall>i. (\<exists>(x, y) \<in> set rs. x \<le> i \<and> i \<le> y) \<longleftrightarrow> half < i \<and> i < half + 3)"
proof -
  have "\<not> 100 - lastPeriodicNAK sample_receiver < periodicNAKInterval sample_receiver"
    by (simp add: sample_receiver_fields)
  from receiver_NAK_exact [OF sample_receiver_represents this] obtain rs where
    r: "fst (receiver_periodicNAK 100 sample_receiver) = range_list rs"
    and c: "\<And>i. (\<exists>(x, y) \<in> set rs. x \<le> i \<and> i \<le> y) \<longleftrightarrow> sack sample_recv_spec < i \<and> i < smax sample_recv_spec
      \<and> i \<notin> set (sbuf sample_recv_spec)" by blast
  have e: "(sack sample_recv_spec < i \<and> i < smax sample_recv_spec \<and> i \<notin> set (sbuf sample_recv_spec))
      \<longleftrightarrow> half < i \<and> i < half + 3" for i
    by (auto simp: sample_recv_spec_def)
  show ?thesis using r c unfolding e by blast
qed

lemma ack_no_all_late: "\<forall>x \<in> set xs. snd x \<Longrightarrow> i \<in> fst ` set xs \<Longrightarrow> i \<le> ack_no xs a"
proof (induction xs a rule: ack_no.induct)
  case (2 n late xs a)
  have m: "n \<le> ack_no xs n" "a \<le> ack_no xs a" by (rule ack_no_mono)+
  show ?case
  proof (cases "n \<le> a")
    case True then show ?thesis using 2(1) [OF True] 2(3,4) m by auto
  next
    case False
    moreover have "late" using 2(3) by simp
    ultimately show ?thesis using 2(2) 2(3,4) m by auto
  qed
qed simp

text \<open>
  C13. Delivery is not held up for ever: when the acknowledgement is due and the delivery time of every buffered
  packet has come, one \<open>Tick\<close> delivers the whole buffer, in order, whatever gaps it has.
\<close>

theorem receiver_Tick_drains:
  assumes "rcv_represents r a" and "recv_ok a" and "\<not> now - lastPeriodicACK r < periodicACKInterval r"
    and "\<forall>p \<in> set (rcvPacketList r). tsbpd p \<le> now"
  shows "rcvPacketList (fst (receiver_Tick rec_ACK rec_NAK rec_deliver now r c)) = []
    \<and> out_delivered (snd (receiver_Tick rec_ACK rec_NAK rec_deliver now r c)) = out_delivered c @ rcvPacketList r"
proof -
  obtain n lite t where t: "receiver_periodicACK now r = (Some (n, lite), t)"
    using periodicACK_due [OF assms(3)] by blast
  note ack = periodicACK_num [OF assms(1,2) t]
  have m: "map seqno (rcvPacketList r) = map num (sbuf a)" using assms(1) by (simp add: rcv_represents_def)
  have "\<forall>x \<in> set (flagged now (rcvPacketList r) (sbuf a)). snd x"
    using assms(4) by (auto simp: flagged_def dest!: set_zip_rightD)
  from ack_no_all_late [OF this] have le: "\<forall>i \<in> set (sbuf a). i \<le> spec_acked now r a"
    unfolding spec_acked_def set_flagged(1) [OF m] by simp
  obtain l u where u: "receiver_periodicNAK now t = (l, u)" by fastforce
  let ?b = "a\<lparr>sack := spec_acked now r a\<rparr>"
  have b: "recv_ok ?b" by (rule recv_ok_acked [OF assms(1,2)])
  have su: "same_rcv t u" by (rule periodicNAK_num(2) [OF ack(2) b u])
  have s: "rcvPacketList u = rcvPacketList r" "rcv_represents u ?b"
    using su ack(3) rcv_represents_same [OF ack(2) su] by (simp_all add: same_rcv_def)
  have "ripe now u p" if "p \<in> set (rcvPacketList r)" for p
  proof -
    have "seqno p \<in> set (map num (sbuf a))" unfolding m [symmetric] using that by simp
    then obtain i where i: "seqno p = num i" "i \<in> set (sbuf a)" by auto
    moreover have "spec_acked now r a < sdel a + half" using b by (simp add: recv_ok_def)
    ultimately have "close i (spec_acked now r a)"
      using le recv_ok_window [OF assms(2) i(2)] by (auto simp: close_def)
    then show ?thesis using i le s(2) assms(4) that by (simp add: ripe_def rcv_represents_def num_compare)
  qed
  then have all: "takeWhile (ripe now u) (rcvPacketList u) = rcvPacketList r"
      "dropWhile (ripe now u) (rcvPacketList u) = []"
    unfolding s(1) by (simp_all add: takeWhile_eq_all_conv dropWhile_eq_Nil_conv)
  define c1 where "c1 = (if l \<noteq> [] then rec_NAK l (rec_ACK n lite c) else rec_ACK n lite c)"
  have c1: "out_delivered c1 = out_delivered c" by (simp add: c1_def rec_NAK_def rec_ACK_def)
  obtain v c2 where v: "receiver_Tick_deliver rec_deliver now u c1 = (v, c2)" by fastforce
  have "receiver_Tick rec_ACK rec_NAK rec_deliver now r c = (receiver_Tick_rate now v, c2)"
    using t u v by (simp add: receiver_Tick_def receiver_Tick_ack_def receiver_Tick_nak_def c1_def)
  then show ?thesis
    using Tick_deliver_exact [OF v] all c1 fold_rec_deliver same_rcv_Tick_rate [of v now] by (simp add: same_rcv_def)
qed

theorem receiver_Tick_drains_witness:
  "rcvPacketList sample_receiver \<noteq> []
   \<and> rcvPacketList (fst (receiver_Tick rec_ACK rec_NAK rec_deliver 100 sample_receiver no_output)) = []"
  using receiver_Tick_drains [OF sample_receiver_represents, of 100 no_output]
  by (simp add: sample_receiver_fields numbered_def sample_packet_def)


text \<open>A period without received bytes leaves the loss rate of the previous one.\<close>

lemma receiver_loss_rate_stale:
  "rr_bytes (rrate r) = 0 \<Longrightarrow> rr_pktLossRate (rrate (receiver_Tick_rate now r)) = rr_pktLossRate (rrate r)"
  by (simp add: receiver_Tick_rate_def Let_def)

lemma receiver_Flush_keeps_counters:
  "rcvPacketList (receiver_Flush r) = [] \<and> rPktBuf (rstat (receiver_Flush r)) = rPktBuf (rstat r)"
  by (simp add: receiver_Flush_def)

end
