(* ===== verification/Crypto.thy ===== *)
theory Crypto
  imports Packet_CIF
begin

text \<open>
  Encryption of the payload and exchange of the keys: \<^verbatim>\<open>crypto/crypto.go\<close> and the key wrap it uses,
  \<^verbatim>\<open>vendor/github.com/benburkert/openpgp/aes/keywrap/keywrap.go\<close>.

  The AES block cipher, PBKDF2 and the system's random source are arguments: \<open>enc\<close> and \<open>dec\<close> take a
  key and a block, \<open>kdf\<close> a passphrase, a salt and a key length, \<open>entropy\<close> a number of bytes and the state
  of the source. What the properties rely on is stated as the predicates \<open>aes_ok\<close>, \<open>kdf_ok\<close> and
  \<open>entropy_ok\<close>.
\<close>

section \<open>Bytes of 64-bit and 128-bit words\<close>

type_synonym u128 = "128 word"

definition put64 :: "u64 \<Rightarrow> bytes" where
  "put64 x = put32 (ucast (drop_bit 32 x)) @ put32 (ucast x)"

definition be64 :: "bytes \<Rightarrow> u64" where
  "be64 b = push_bit 32 (ucast (be32 b 0)) OR ucast (be32 b 4)"

definition put128 :: "u128 \<Rightarrow> bytes" where
  "put128 x = map (\<lambda>i. ucast (drop_bit (8 * (15 - i)) x)) [0..<16]"

definition be128 :: "bytes \<Rightarrow> u128" where
  "be128 b = foldl (\<lambda>x y. push_bit 8 x OR ucast y) 0 (take 16 b)"

text \<open>Go's \<open>copy\<close> overwrites a prefix of the destination.\<close>

definition go_copy :: "'a list \<Rightarrow> 'a list \<Rightarrow> 'a list" where
  "go_copy dst src = take (length dst) src @ drop (length src) dst"

definition xor_bytes :: "bytes \<Rightarrow> bytes \<Rightarrow> bytes" where
  "xor_bytes a b = map2 (XOR) a b"

section \<open>AES key wrap\<close>

datatype crypto_error = InvalidKeySize | UnknownKeyType | EntropyFailed | ErrInvalidKey | ErrInvalidWrap
  | ErrWrapPlaintext | ErrUnwrapCiphertext | ErrUnwrapFailed | InvalidAESKey | InvalidSalt | InvalidSEK

definition aes_key_ok :: "bytes \<Rightarrow> bool" where
  "aes_key_ok k \<longleftrightarrow> length k = 16 \<or> length k = 24 \<or> length k = 32"

fun blocks8 :: "bytes \<Rightarrow> bytes list" where
  "blocks8 [] = []"
| "blocks8 (x # xs) = take 8 (x # xs) # blocks8 (drop 7 xs)"

text \<open>
  One pass over the blocks. \<open>a\<close> is the upper half of the cipher block and \<open>t\<close> the step counter; the
  unwrapping pass visits the blocks from the last to the first.
\<close>

fun wrap_pass :: "(bytes \<Rightarrow> bytes) \<Rightarrow> u64 \<Rightarrow> bytes \<Rightarrow> bytes list \<Rightarrow> bytes \<times> bytes list" where
  "wrap_pass enc t a [] = (a, [])"
| "wrap_pass enc t a (r # rs) =
     (let b = enc (a @ r);
          (a, rs) = wrap_pass enc (t + 1) (put64 (be64 (take 8 b) XOR t)) rs
      in (a, drop 8 b # rs))"

fun unwrap_pass :: "(bytes \<Rightarrow> bytes) \<Rightarrow> u64 \<Rightarrow> bytes \<Rightarrow> bytes list \<Rightarrow> bytes \<times> bytes list" where
  "unwrap_pass dec t a [] = (a, [])"
| "unwrap_pass dec t a (r # rs) =
     (let (a, rs) = unwrap_pass dec (t + 1) a rs;
          b = dec (put64 (be64 a XOR t) @ r)
      in (take 8 b, drop 8 b # rs))"

definition pass_start :: "nat \<Rightarrow> nat \<Rightarrow> u64" where
  "pass_start nblocks j = of_nat (j * nblocks + 1)"

definition wrap_passes :: "(bytes \<Rightarrow> bytes) \<Rightarrow> nat \<Rightarrow> bytes \<times> bytes list \<Rightarrow> bytes \<times> bytes list" where
  "wrap_passes enc nblocks s = fold (\<lambda>j (a, rs). wrap_pass enc (pass_start nblocks j) a rs) [0..<6] s"

definition unwrap_passes :: "(bytes \<Rightarrow> bytes) \<Rightarrow> nat \<Rightarrow> bytes \<times> bytes list \<Rightarrow> bytes \<times> bytes list" where
  "unwrap_passes dec nblocks s = fold (\<lambda>j (a, rs). unwrap_pass dec (pass_start nblocks j) a rs) (rev [0..<6]) s"

definition keywrap_Wrap :: "(bytes \<Rightarrow> bytes \<Rightarrow> bytes) \<Rightarrow> bytes \<Rightarrow> bytes \<Rightarrow> crypto_error + bytes" where
  "keywrap_Wrap enc key plainText =
     (if length plainText mod 8 \<noteq> 0 then Inl ErrWrapPlaintext
      else if \<not> aes_key_ok key then Inl InvalidAESKey
      else
        let (a, rs) = wrap_passes (enc key) (length plainText div 8) (replicate 8 0xA6, blocks8 plainText)
        in Inr (a @ concat rs))"

text \<open>
  With fewer than eight bytes of cipher text, which only the empty one is after the length check,
  \<^verbatim>\<open>cipherText[:8]\<close> panics.
\<close>

definition keywrap_Unwrap :: "(bytes \<Rightarrow> bytes \<Rightarrow> bytes) \<Rightarrow> bytes \<Rightarrow> bytes \<Rightarrow> (crypto_error, bytes) result" where
  "keywrap_Unwrap dec key cipherText =
     (if length cipherText mod 8 \<noteq> 0 then Inl (Err ErrUnwrapCiphertext)
      else if \<not> aes_key_ok key then Inl (Err InvalidAESKey)
      else if length cipherText < 8 then Inl Panic
      else
        let (a, rs) = unwrap_passes (dec key) (length cipherText div 8 - 1)
              (take 8 cipherText, blocks8 (drop 8 cipherText))
        in if a \<noteq> replicate 8 0xA6 then Inl (Err ErrUnwrapFailed) else Inr (concat rs))"

section \<open>Key material\<close>

record crypto =
  crSalt :: bytes
  crKeyLength :: nat
  evenSEK :: bytes
  oddSEK :: bytes

type_synonym 'g entropy = "nat \<Rightarrow> 'g \<Rightarrow> bytes option \<times> 'g"

definition crypto_generateSEK :: "'g entropy \<Rightarrow> nat \<Rightarrow> 'g \<Rightarrow> (crypto_error + bytes) \<times> 'g" where
  "crypto_generateSEK entropy keyLength g =
     (case entropy keyLength g of
        (None, g) \<Rightarrow> (Inl EntropyFailed, g)
      | (Some sek, g) \<Rightarrow> (Inr sek, g))"

definition crypto_New :: "'g entropy \<Rightarrow> nat \<Rightarrow> 'g \<Rightarrow> (crypto_error + crypto) \<times> 'g" where
  "crypto_New entropy keyLength g =
     (if keyLength \<noteq> 16 \<and> keyLength \<noteq> 24 \<and> keyLength \<noteq> 32 then (Inl InvalidKeySize, g)
      else case entropy 16 g of
        (None, g) \<Rightarrow> (Inl EntropyFailed, g)
      | (Some salt, g) \<Rightarrow>
          (case crypto_generateSEK entropy keyLength g of
             (Inl e, g) \<Rightarrow> (Inl e, g)
           | (Inr sek1, g) \<Rightarrow>
               (case crypto_generateSEK entropy keyLength g of
                  (Inl e, g) \<Rightarrow> (Inl e, g)
                | (Inr sek2, g) \<Rightarrow>
                    (Inr \<lparr>crSalt = salt, crKeyLength = keyLength, evenSEK = sek1, oddSEK = sek2\<rparr>, g))))"

definition crypto_GenerateSEK ::
  "'g entropy \<Rightarrow> crypto \<Rightarrow> PacketEncryption \<Rightarrow> 'g \<Rightarrow> (crypto_error option \<times> crypto) \<times> 'g" where
  "crypto_GenerateSEK entropy c key g =
     (if \<not> PacketEncryption_IsValid key then ((Some UnknownKeyType, c), g)
      else case crypto_generateSEK entropy (crKeyLength c) g of
        (Inl e, g) \<Rightarrow> ((Some e, c), g)
      | (Inr sek, g) \<Rightarrow>
          ((None, if key = EvenKeyEncrypted then c\<lparr>evenSEK := sek\<rparr>
                  else if key = OddKeyEncrypted then c\<lparr>oddSEK := sek\<rparr> else c), g))"

definition crypto_calculateKEK :: "(string \<Rightarrow> bytes \<Rightarrow> nat \<Rightarrow> bytes) \<Rightarrow> string \<Rightarrow> bytes \<Rightarrow> nat \<Rightarrow> bytes" where
  "crypto_calculateKEK kdf passphrase salt keyLength = kdf passphrase (drop 8 salt) keyLength"

text \<open>
  The salt of the message is taken over before the wrapped key is verified, also when the verification
  fails. The result is the error, if any, and the state.
\<close>

definition crypto_UnmarshalKM ::
  "(bytes \<Rightarrow> bytes \<Rightarrow> bytes) \<Rightarrow> (string \<Rightarrow> bytes \<Rightarrow> nat \<Rightarrow> bytes)
     \<Rightarrow> crypto \<Rightarrow> CIFKeyMaterialExtension \<Rightarrow> string \<Rightarrow> crypto_error fault option \<times> crypto" where
  "crypto_UnmarshalKM dec kdf c km passphrase =
     (if KeyBasedEncryption km = UnencryptedPacket \<or> \<not> PacketEncryption_IsValid (KeyBasedEncryption km)
      then (Some (Err ErrInvalidKey), c)
      else
        let n = (if KeyBasedEncryption km = EvenAndOddKey then 2 else 1);
            wrapLength = n * crKeyLength c
        in
        if int (length (kmWrap km)) - 8 \<noteq> int wrapLength then (Some (Err ErrInvalidWrap), c)
        else
          let c = (if kmSalt km \<noteq> [] then c\<lparr>crSalt := go_copy (crSalt c) (kmSalt km)\<rparr> else c);
              kek = crypto_calculateKEK kdf passphrase (crSalt c) (crKeyLength c)
          in
          case keywrap_Unwrap dec kek (kmWrap km) of
            Inl e \<Rightarrow> (Some e, c)
          | Inr unwrap \<Rightarrow>
              if length unwrap \<noteq> wrapLength then (Some (Err ErrInvalidWrap), c)
              else if KeyBasedEncryption km = EvenKeyEncrypted
                then (None, c\<lparr>evenSEK := go_copy (evenSEK c) unwrap\<rparr>)
              else if KeyBasedEncryption km = OddKeyEncrypted
                then (None, c\<lparr>oddSEK := go_copy (oddSEK c) unwrap\<rparr>)
              else (None, c\<lparr>evenSEK := go_copy (evenSEK c) (take (crKeyLength c) unwrap),
                            oddSEK := go_copy (oddSEK c) (drop (crKeyLength c) unwrap)\<rparr>))"

definition crypto_MarshalKM ::
  "(bytes \<Rightarrow> bytes \<Rightarrow> bytes) \<Rightarrow> (string \<Rightarrow> bytes \<Rightarrow> nat \<Rightarrow> bytes)
     \<Rightarrow> crypto \<Rightarrow> CIFKeyMaterialExtension \<Rightarrow> string \<Rightarrow> PacketEncryption
     \<Rightarrow> crypto_error option \<times> CIFKeyMaterialExtension" where
  "crypto_MarshalKM enc kdf c km passphrase key =
     (if key = UnencryptedPacket \<or> \<not> PacketEncryption_IsValid key then (Some ErrInvalidKey, km)
      else
        let km = km\<lparr>kmS := 0, kmVersion := 1, kmPacketType := 2, kmSign := 0x2029,
                    KeyBasedEncryption := key, KeyEncryptionKeyIndex := 0, kmCipher := 2,
                    kmAuthentication := 0, StreamEncapsulation := 2, SLen := 16,
                    KLen := of_nat (crKeyLength c)\<rparr>;
            salt = (if length (kmSalt km) \<noteq> 16 then replicate 16 0 else kmSalt km);
            km = km\<lparr>kmSalt := go_copy salt (crSalt c)\<rparr>;
            n = (if key = EvenAndOddKey then 2 else 1);
            w = replicate (n * crKeyLength c) 0;
            w = (if key = EvenKeyEncrypted then go_copy w (evenSEK c)
                 else if key = OddKeyEncrypted then go_copy w (oddSEK c)
                 else go_copy (take (crKeyLength c) w) (evenSEK c)
                      @ go_copy (drop (crKeyLength c) w) (oddSEK c));
            kek = crypto_calculateKEK kdf passphrase (crSalt c) (crKeyLength c)
        in
        case keywrap_Wrap enc kek w of
          Inl e \<Rightarrow> (Some e, km)
        | Inr wrap \<Rightarrow> (None, km\<lparr>kmWrap := wrap\<rparr>))"

section \<open>Payload\<close>

text \<open>The counter block, and the key stream of \<^verbatim>\<open>cipher.NewCTR\<close>: the encrypted successive counters.\<close>

definition crypto_ctr :: "bytes \<Rightarrow> u32 \<Rightarrow> bytes" where
  "crypto_ctr salt packetSequenceNumber =
     (let ctr = replicate 10 0 @ put32 packetSequenceNumber @ replicate 2 0
      in xor_bytes (take 14 ctr) (take 14 salt) @ drop 14 ctr)"

definition key_stream :: "(bytes \<Rightarrow> bytes) \<Rightarrow> bytes \<Rightarrow> nat \<Rightarrow> bytes" where
  "key_stream enc iv n = concat (map (\<lambda>i. enc (put128 (be128 iv + of_nat i))) [0..<(n + 15) div 16])"

definition crypto_EncryptOrDecryptPayload ::
  "(bytes \<Rightarrow> bytes \<Rightarrow> bytes) \<Rightarrow> crypto \<Rightarrow> bytes \<Rightarrow> PacketEncryption \<Rightarrow> u32 \<Rightarrow> crypto_error + bytes" where
  "crypto_EncryptOrDecryptPayload enc c data key packetSequenceNumber =
     (if length (crSalt c) \<noteq> 16 then Inl InvalidSalt
      else if key \<noteq> EvenKeyEncrypted \<and> key \<noteq> OddKeyEncrypted then Inl InvalidSEK
      else
        let sek = (if key = EvenKeyEncrypted then evenSEK c else oddSEK c) in
        if \<not> aes_key_ok sek then Inl InvalidAESKey
        else Inr (xor_bytes data (key_stream (enc sek) (crypto_ctr (crSalt c) packetSequenceNumber) (length data))))"

section \<open>Round trips of the building blocks\<close>

definition aes_ok :: "(bytes \<Rightarrow> bytes \<Rightarrow> bytes) \<Rightarrow> (bytes \<Rightarrow> bytes \<Rightarrow> bytes) \<Rightarrow> bool" where
  "aes_ok enc dec \<longleftrightarrow> (\<forall>k b. aes_key_ok k \<longrightarrow> length b = 16 \<longrightarrow>
     length (enc k b) = 16 \<and> length (dec k b) = 16 \<and> dec k (enc k b) = b)"

definition kdf_ok :: "(string \<Rightarrow> bytes \<Rightarrow> nat \<Rightarrow> bytes) \<Rightarrow> bool" where
  "kdf_ok kdf \<longleftrightarrow> (\<forall>pass salt n. length (kdf pass salt n) = n)"

definition wf_crypto :: "crypto \<Rightarrow> bool" where
  "wf_crypto c \<longleftrightarrow> length (crSalt c) = 16 \<and> crKeyLength c \<in> {16, 24, 32}
     \<and> length (evenSEK c) = crKeyLength c \<and> length (oddSEK c) = crKeyLength c"

lemma go_copy_full [simp]: "length src = length dst \<Longrightarrow> go_copy dst src = src"
  by (simp add: go_copy_def)

lemma length_go_copy [simp]: "length (go_copy dst src) = length dst"
  by (simp add: go_copy_def)

lemma length_put64 [simp]: "length (put64 x) = 8"
  by (simp add: put64_def)

lemma be64_put64 [simp]: "be64 (put64 x) = x"
proof -
  have "be32 (put64 x) 0 = ucast (drop_bit 32 x)" "be32 (put64 x) 4 = ucast x"
    by (simp_all add: put64_def codec)
  then show ?thesis
    by (auto simp: be64_def bit_simps intro!: bit_word_eqI)
qed

lemma list8: "length b = 8 \<Longrightarrow> \<exists>b0 b1 b2 b3 b4 b5 b6 b7. b = [b0, b1, b2, b3, b4, b5, b6, b7]"
  by (auto simp: numeral_eq_Suc length_Suc_conv)

lemma put64_be64: "length b = 8 \<Longrightarrow> put64 (be64 b) = b"
proof -
  assume "length b = 8"
  then obtain b0 b1 b2 b3 b4 b5 b6 b7 where "b = [b0, b1, b2, b3, b4, b5, b6, b7]" using list8 by blast
  moreover have "ucast (drop_bit 32 (push_bit 32 (ucast (u :: u32)) OR ucast (v :: u32) :: u64)) = u"
      "ucast (push_bit 32 (ucast (u :: u32)) OR ucast (v :: u32) :: u64) = v" for u v
    by (auto simp: bit_simps intro!: bit_word_eqI)
  ultimately show ?thesis
    by (simp add: put64_def be64_def put32_be32)
qed

lemma xor_bytes_twice: "length a \<le> length b \<Longrightarrow> xor_bytes (xor_bytes a b) b = a"
proof (induction a arbitrary: b)
  case (Cons x a)
  then show ?case by (cases b) (auto simp: xor_bytes_def xor.assoc)
qed (simp add: xor_bytes_def)

lemma length_xor_bytes [simp]: "length (xor_bytes a b) = min (length a) (length b)"
  by (simp add: xor_bytes_def)

lemma length_put128 [simp]: "length (put128 x) = 16"
  by (simp add: put128_def)

lemma blocks8_concat [simp]: "concat (blocks8 xs) = xs"
proof (induction xs rule: blocks8.induct)
  case (2 x xs)
  then show ?case by simp
qed simp

lemma blocks8_lengths: "length xs mod 8 = 0 \<Longrightarrow> \<forall>b \<in> set (blocks8 xs). length b = 8"
proof (induction xs rule: blocks8.induct)
  case (2 x xs)
  have "8 dvd Suc (length xs)" using 2(2) unfolding mod_eq_0_iff_dvd by simp
  then obtain k where k: "Suc (length xs) = 8 * k" by (rule dvdE)
  then obtain j where "k = Suc j" by (cases k) auto
  then have len: "length xs = 8 * j + 7" using k by simp
  have "length (drop 7 xs) mod 8 = 0" unfolding length_drop len by simp
  then have IH: "\<forall>b \<in> set (blocks8 (drop 7 xs)). length b = 8" by (rule 2(1))
  have "length (take 8 (x # xs)) = 8" unfolding length_take list.size len by linarith
  then show ?case unfolding blocks8.simps(2) using IH by (simp only: list.set ball_simps)
qed simp

lemma blocks8_of_concat: "\<forall>b \<in> set bs. length b = 8 \<Longrightarrow> blocks8 (concat bs) = bs"
proof (induction bs)
  case (Cons b bs)
  then obtain x b' where b: "b = x # b'" "length b' = 7" by (cases b) auto
  then show ?case using Cons by simp
qed simp

section \<open>Key wrap is invertible\<close>

definition block_inverse :: "(bytes \<Rightarrow> bytes) \<Rightarrow> (bytes \<Rightarrow> bytes) \<Rightarrow> bool" where
  "block_inverse enc dec \<longleftrightarrow> (\<forall>b. length b = 16 \<longrightarrow> length (enc b) = 16 \<and> dec (enc b) = b)"

lemma wrap_pass_lengths:
  "block_inverse enc dec \<Longrightarrow> length a = 8 \<Longrightarrow> \<forall>r \<in> set rs. length r = 8 \<Longrightarrow> wrap_pass enc t a rs = (a', rs')
     \<Longrightarrow> length a' = 8 \<and> (\<forall>r \<in> set rs'. length r = 8) \<and> length rs' = length rs"
proof (induction rs arbitrary: t a a' rs')
  case (Cons r rs)
  have l: "length (enc (a @ r)) = 16" using Cons.prems by (auto simp: block_inverse_def)
  obtain u us where w: "wrap_pass enc (t + 1) (put64 (be64 (take 8 (enc (a @ r))) XOR t)) rs = (u, us)" by fastforce
  show ?case using Cons.IH [OF Cons.prems(1) _ _ w] Cons.prems(3,4) w l by (auto simp: Let_def)
qed auto

lemma unwrap_wrap_pass:
  "block_inverse enc dec \<Longrightarrow> length a = 8 \<Longrightarrow> \<forall>r \<in> set rs. length r = 8 \<Longrightarrow> wrap_pass enc t a rs = (a', rs')
     \<Longrightarrow> unwrap_pass dec t a' rs' = (a, rs)"
proof (induction rs arbitrary: t a a' rs')
  case (Cons r rs)
  let ?b = "enc (a @ r)" and ?a = "put64 (be64 (take 8 (enc (a @ r))) XOR t)"
  have l: "length ?b = 16" "dec ?b = a @ r" using Cons.prems by (auto simp: block_inverse_def)
  obtain u us where w: "wrap_pass enc (t + 1) ?a rs = (u, us)" by fastforce
  have "unwrap_pass dec (t + 1) u us = (?a, rs)"
    using Cons.IH [OF Cons.prems(1) _ _ w] Cons.prems(3) by simp
  moreover have "put64 (be64 ?a XOR t) = take 8 ?b" using l(1) by (simp add: xor.assoc put64_be64)
  ultimately show ?case using Cons.prems w l by (auto simp: Let_def)
qed auto

lemma unwrap_wrap_passes:
  assumes "block_inverse enc dec"
  shows "length a = 8 \<Longrightarrow> \<forall>r \<in> set rs. length r = 8 \<Longrightarrow>
     \<exists>a' rs'. fold (\<lambda>j (a, rs). wrap_pass enc (f j) a rs) js (a, rs) = (a', rs')
       \<and> length a' = 8 \<and> (\<forall>r \<in> set rs'. length r = 8) \<and> length rs' = length rs
       \<and> fold (\<lambda>j (a, rs). unwrap_pass dec (f j) a rs) (rev js) (a', rs') = (a, rs)"
proof (induction js arbitrary: a rs)
  case (Cons j js)
  obtain b bs where w: "wrap_pass enc (f j) a rs = (b, bs)" by fastforce
  have l: "length b = 8" "\<forall>r \<in> set bs. length r = 8" "length bs = length rs"
    using wrap_pass_lengths [OF assms Cons.prems w] by auto
  show ?case
    using Cons.IH [OF l(1,2)] w l(3) unwrap_wrap_pass [OF assms Cons.prems w] by auto
qed simp

lemma keywrap_round_trip:
  assumes "aes_ok enc dec" "aes_key_ok key" "length w mod 8 = 0"
  shows "\<exists>x. keywrap_Wrap enc key w = Inr x \<and> length x = length w + 8 \<and> keywrap_Unwrap dec key x = Inr w"
proof -
  have inv: "block_inverse (enc key) (dec key)" using assms(1,2) by (simp add: aes_ok_def block_inverse_def)
  let ?bs = "blocks8 w" and ?n = "length w div 8"
  have bs: "\<forall>r \<in> set ?bs. length r = 8" by (rule blocks8_lengths [OF assms(3)])
  obtain a' rs' where p: "wrap_passes (enc key) ?n (replicate 8 0xA6, ?bs) = (a', rs')"
    "length a' = 8" "\<forall>r \<in> set rs'. length r = 8" "length rs' = length ?bs"
    "unwrap_passes (dec key) ?n (a', rs') = (replicate 8 0xA6, ?bs)"
    using unwrap_wrap_passes [OF inv _ bs, of "replicate 8 0xA6" "pass_start ?n" "[0..<6]"]
    unfolding wrap_passes_def unwrap_passes_def by auto
  have len: "length (concat cs) = 8 * length cs" if "\<forall>r \<in> set cs. length r = 8" for cs :: "bytes list"
    using that by (induction cs) auto
  have w: "length w = 8 * length ?bs" using len [OF bs] by simp
  have x: "keywrap_Wrap enc key w = Inr (a' @ concat rs')"
    using assms(2,3) p(1) by (simp add: keywrap_Wrap_def)
  have "length (a' @ concat rs') = length w + 8" using len [OF p(3)] p(2,4) w by simp
  moreover have "(length w + 8) div 8 - 1 = ?n" by simp
  ultimately have "keywrap_Unwrap dec key (a' @ concat rs') = Inr w"
    using assms(2,3) p(2,3,5) by (simp add: keywrap_Unwrap_def blocks8_of_concat del: length_append)
  then show ?thesis using x len [OF p(3)] p(2,4) w by simp
qed

lemma length_key_stream:
  assumes "\<forall>b. length b = 16 \<longrightarrow> length (enc b) = 16"
  shows "n \<le> length (key_stream enc iv n)"
proof -
  have "length (concat (map (\<lambda>i. enc (put128 (be128 iv + of_nat i))) [0..<m])) = 16 * m" for m
    using assms by (induction m) auto
  then show ?thesis unfolding key_stream_def by simp
qed

section \<open>Properties\<close>

lemma encryption_cases: "PacketEncryption_IsValid key \<Longrightarrow>
    key = UnencryptedPacket \<or> key = EvenKeyEncrypted \<or> key = OddKeyEncrypted \<or> key = EvenAndOddKey"
  by (simp add: PacketEncryption_IsValid_def UnencryptedPacket_def EvenKeyEncrypted_def OddKeyEncrypted_def
      EvenAndOddKey_def word_le_nat_alt word_less_nat_alt word_unat_eq_iff) linarith

lemma crypto_wrap_inverse:
  assumes "aes_ok enc dec" "kdf_ok kdf" "wf_crypto c" "crypto_MarshalKM enc kdf c km pass key = (None, km')"
  shows "valid_KM (km'\<lparr>kmResv1 := 0\<rparr>) \<and> kmSalt km' = crSalt c \<and> KeyBasedEncryption km' = key
    \<and> keywrap_Unwrap dec (crypto_calculateKEK kdf pass (crSalt c) (crKeyLength c)) (kmWrap km') =
        Inr (if key = EvenKeyEncrypted then evenSEK c else if key = OddKeyEncrypted then oddSEK c
             else evenSEK c @ oddSEK c)"
proof -
  let ?w = "if key = EvenKeyEncrypted then evenSEK c else if key = OddKeyEncrypted then oddSEK c
             else evenSEK c @ oddSEK c"
  let ?kek = "crypto_calculateKEK kdf pass (crSalt c) (crKeyLength c)"
  have k: "aes_key_ok ?kek" using assms(2,3) by (auto simp: kdf_ok_def aes_key_ok_def crypto_calculateKEK_def wf_crypto_def)
  have w: "length ?w mod 8 = 0" using assms(3) by (auto simp: wf_crypto_def)
  obtain x where x: "keywrap_Wrap enc ?kek ?w = Inr x" "length x = length ?w + 8" "keywrap_Unwrap dec ?kek x = Inr ?w"
    using keywrap_round_trip [OF assms(1) k w] by blast
  let ?n = "(if key = EvenAndOddKey then 2 else 1) * crKeyLength c"
  have copy: "(if key = EvenKeyEncrypted then go_copy (replicate ?n 0) (evenSEK c)
      else if key = OddKeyEncrypted then go_copy (replicate ?n 0) (oddSEK c)
      else go_copy (take (crKeyLength c) (replicate ?n 0)) (evenSEK c)
           @ go_copy (drop (crKeyLength c) (replicate ?n 0)) (oddSEK c)) = ?w"
    using assms(3,4) encryption_cases [of key]
    by (auto simp: wf_crypto_def crypto_MarshalKM_def EvenKeyEncrypted_def OddKeyEncrypted_def EvenAndOddKey_def
        UnencryptedPacket_def split: if_splits)
  have ok: "key \<noteq> UnencryptedPacket" "PacketEncryption_IsValid key"
    using assms(4) by (auto simp: crypto_MarshalKM_def split: if_splits)
  have km: "km' = km\<lparr>kmS := 0, kmVersion := 1, kmPacketType := 2, kmSign := 0x2029,
      KeyBasedEncryption := key, KeyEncryptionKeyIndex := 0, kmCipher := 2, kmAuthentication := 0,
      StreamEncapsulation := 2, SLen := 16, KLen := of_nat (crKeyLength c), kmSalt := crSalt c, kmWrap := x\<rparr>"
    using assms(3,4) ok x(1) unfolding crypto_MarshalKM_def Let_def copy by (auto simp: wf_crypto_def)
  show ?thesis
    using ok x assms(3) encryption_cases [of key]
    by (auto simp: km valid_KM_def wf_crypto_def wrap_length_def EvenKeyEncrypted_def OddKeyEncrypted_def
        EvenAndOddKey_def UnencryptedPacket_def)
qed

lemma MarshalKM_total:
  assumes "aes_ok enc dec" "kdf_ok kdf" "wf_crypto c" "key = EvenKeyEncrypted \<or> key = OddKeyEncrypted \<or> key = EvenAndOddKey"
  shows "\<exists>km'. crypto_MarshalKM enc kdf c km pass key = (None, km')"
proof -
  let ?kek = "crypto_calculateKEK kdf pass (crSalt c) (crKeyLength c)"
  have k: "aes_key_ok ?kek" using assms(2,3) by (auto simp: kdf_ok_def aes_key_ok_def crypto_calculateKEK_def wf_crypto_def)
  have total: "\<exists>x. keywrap_Wrap enc ?kek w = Inr x" if "length w mod 8 = 0" for w
    using keywrap_round_trip [OF assms(1) k that] by blast
  have m: "crKeyLength c mod 8 = 0" using assms(3) by (auto simp: wf_crypto_def)
  define W where "W = (let n = (if key = EvenAndOddKey then 2 else 1); w = replicate (n * crKeyLength c) 0
    in if key = EvenKeyEncrypted then go_copy w (evenSEK c)
       else if key = OddKeyEncrypted then go_copy w (oddSEK c)
       else go_copy (take (crKeyLength c) w) (evenSEK c) @ go_copy (drop (crKeyLength c) w) (oddSEK c))"
  have "length W = crKeyLength c \<or> length W = 2 * crKeyLength c" using assms(4) by (auto simp: W_def Let_def)
  then have "length W mod 8 = 0" using m by auto
  from total [OF this] obtain x where "keywrap_Wrap enc ?kek W = Inr x" ..
  then show ?thesis
    using assms(4) unfolding crypto_MarshalKM_def W_def Let_def
    by (elim disjE) (simp_all add: PacketEncryption_IsValid_def)
qed

lemma MarshalKM_frame:
  "crypto_MarshalKM enc kdf c km pass key = (None, km') \<Longrightarrow> kmResv1 km' = kmResv1 km \<and> SLen km' = 16
     \<and> KLen km' = of_nat (crKeyLength c)"
  by (auto simp: crypto_MarshalKM_def Let_def split: if_splits sum.splits)

lemma UnmarshalKM_of_MarshalKM:
  assumes "aes_ok enc dec" "kdf_ok kdf" "wf_crypto c" "wf_crypto d" "crKeyLength d = crKeyLength c"
    "crypto_MarshalKM enc kdf c km pass key = (None, km')"
  shows "crypto_UnmarshalKM dec kdf d (km'\<lparr>kmError := e\<rparr>) pass = (None, d\<lparr>crSalt := crSalt c,
      evenSEK := (if key = OddKeyEncrypted then evenSEK d else evenSEK c),
      oddSEK := (if key = EvenKeyEncrypted then oddSEK d else oddSEK c)\<rparr>)"
proof -
  note w = crypto_wrap_inverse [OF assms(1-3,6)]
  have ok: "key \<noteq> UnencryptedPacket" "PacketEncryption_IsValid key"
    using assms(6) by (auto simp: crypto_MarshalKM_def split: if_splits)
  have l: "length (kmWrap km') = (if key = EvenAndOddKey then 2 else 1) * crKeyLength c + 8"
    "length (crSalt c) = length (crSalt d)" "crSalt c \<noteq> []"
    using w assms(3,4) MarshalKM_frame [OF assms(6)] by (auto simp: valid_KM_def wrap_length_def wf_crypto_def)
  show ?thesis
    using w l ok assms(3-5) encryption_cases [OF ok(2)]
    by (auto simp: crypto_UnmarshalKM_def Let_def wf_crypto_def)
qed

lemma payload_involution:
  assumes "aes_ok enc dec" "crypto_EncryptOrDecryptPayload enc c data key seq = Inr x"
  shows "length x = length data" "crypto_EncryptOrDecryptPayload enc c x key seq = Inr data"
proof -
  let ?sek = "if key = EvenKeyEncrypted then evenSEK c else oddSEK c"
  let ?ks = "key_stream (enc ?sek) (crypto_ctr (crSalt c) seq) (length data)"
  have x: "x = xor_bytes data ?ks" "aes_key_ok ?sek" "length (crSalt c) = 16"
      "key = EvenKeyEncrypted \<or> key = OddKeyEncrypted"
    using assms(2) by (auto simp: crypto_EncryptOrDecryptPayload_def Let_def split: if_splits)
  have "length data \<le> length ?ks"
    using assms(1) x(2) by (intro length_key_stream) (auto simp: aes_ok_def)
  then show "length x = length data" "crypto_EncryptOrDecryptPayload enc c x key seq = Inr data"
    using x by (auto simp: crypto_EncryptOrDecryptPayload_def xor_bytes_twice Let_def min_def)
qed

lemma payload_same_key:
  "crSalt d = crSalt c \<Longrightarrow> (key = EvenKeyEncrypted \<Longrightarrow> evenSEK d = evenSEK c) \<Longrightarrow> (key = OddKeyEncrypted \<Longrightarrow> oddSEK d = oddSEK c)
     \<Longrightarrow> crypto_EncryptOrDecryptPayload enc d data key seq = crypto_EncryptOrDecryptPayload enc c data key seq"
  by (auto simp: crypto_EncryptOrDecryptPayload_def Let_def)

text \<open>
  C7. Two endpoints with the same key length and passphrase understand each other: the key material that one
  wraps goes over the wire, the other unwraps it, and every payload that the first encrypts with a key of the
  message is decrypted by the second to the original bytes.
\<close>

theorem key_exchange_decrypts:
  assumes "aes_ok enc dec" and "kdf_ok kdf" and "wf_crypto c" and "wf_crypto d" and "crKeyLength d = crKeyLength c"
    and "key = EvenKeyEncrypted \<or> key = OddKeyEncrypted \<or> key = EvenAndOddKey"
  shows "\<exists>km bs km2 d'. crypto_MarshalKM enc kdf c zero_KM pass key = (None, km)
    \<and> CIFKeyMaterialExtension_Marshal km (Some []) = Inr bs
    \<and> CIFKeyMaterialExtension_Unmarshal zero_KM bs = Inr km2
    \<and> crypto_UnmarshalKM dec kdf d km2 pass = (None, d') \<and> wf_crypto d'
    \<and> (\<forall>data k seq x. (k = EvenKeyEncrypted \<and> key \<noteq> OddKeyEncrypted \<or> k = OddKeyEncrypted \<and> key \<noteq> EvenKeyEncrypted)
         \<longrightarrow> crypto_EncryptOrDecryptPayload enc c data k seq = Inr x
         \<longrightarrow> crypto_EncryptOrDecryptPayload enc d' x k seq = Inr data)"
proof -
  obtain km where km: "crypto_MarshalKM enc kdf c zero_KM pass key = (None, km)"
    using MarshalKM_total [OF assms(1-3,6)] by blast
  have v: "valid_KM km" "SLen km \<noteq> 0"
    using crypto_wrap_inverse [OF assms(1-3) km] MarshalKM_frame [OF km] by (auto simp: zero_KM_def valid_KM_def)
  let ?bs = "KM_head km @ kmSalt km @ kmWrap km"
  have "length ?bs \<le> 128" using v by (auto simp: valid_KM_def wrap_length_def)
  then have m: "CIFKeyMaterialExtension_Marshal km (Some []) = Inr ?bs"
    using v(2) by (simp add: CIFKeyMaterialExtension_Marshal_def)
  have u: "CIFKeyMaterialExtension_Unmarshal zero_KM ?bs = Inr (km\<lparr>kmError := 0\<rparr>)"
    using KM_round_trip [OF v(1), of ?bs "[]" zero_KM] v(2) by (simp add: merge_KM_def zero_KM_def)
  let ?d = "d\<lparr>crSalt := crSalt c, evenSEK := (if key = OddKeyEncrypted then evenSEK d else evenSEK c),
      oddSEK := (if key = EvenKeyEncrypted then oddSEK d else oddSEK c)\<rparr>"
  have d: "crypto_UnmarshalKM dec kdf d (km\<lparr>kmError := 0\<rparr>) pass = (None, ?d)"
    by (rule UnmarshalKM_of_MarshalKM [OF assms(1-5) km])
  have "crypto_EncryptOrDecryptPayload enc ?d x k seq = Inr data"
    if "k = EvenKeyEncrypted \<and> key \<noteq> OddKeyEncrypted \<or> k = OddKeyEncrypted \<and> key \<noteq> EvenKeyEncrypted"
      "crypto_EncryptOrDecryptPayload enc c data k seq = Inr x" for data k seq x
    using payload_involution(2) [OF assms(1) that(2)] payload_same_key [of ?d c k enc x seq] that(1) by auto
  moreover have "wf_crypto ?d" using assms(3-5) by (auto simp: wf_crypto_def)
  ultimately show ?thesis using km m u d by blast
qed

definition sample_cipher :: "bytes \<Rightarrow> bytes \<Rightarrow> bytes" where
  "sample_cipher k b = rev b"

definition sample_kdf :: "string \<Rightarrow> bytes \<Rightarrow> nat \<Rightarrow> bytes" where
  "sample_kdf pass salt n = replicate n (of_nat (length pass))"

definition sample_crypto :: "u8 \<Rightarrow> crypto" where
  "sample_crypto x = \<lparr>crSalt = replicate 16 x, crKeyLength = 16, evenSEK = replicate 16 (x + 1),
     oddSEK = replicate 16 (x + 2)\<rparr>"

lemma sample_crypto_ok: "aes_ok sample_cipher sample_cipher" "kdf_ok sample_kdf" "wf_crypto (sample_crypto x)"
  by (simp_all add: aes_ok_def sample_cipher_def kdf_ok_def sample_kdf_def wf_crypto_def sample_crypto_def)

theorem key_exchange_decrypts_witness:
  "\<exists>km bs km2 d'. crypto_MarshalKM sample_cipher sample_kdf (sample_crypto 7) zero_KM ''secret'' EvenAndOddKey = (None, km)
    \<and> CIFKeyMaterialExtension_Marshal km (Some []) = Inr bs
    \<and> CIFKeyMaterialExtension_Unmarshal zero_KM bs = Inr km2
    \<and> crypto_UnmarshalKM sample_cipher sample_kdf (sample_crypto 9) km2 ''secret'' = (None, d') \<and> wf_crypto d'"
proof -
  have "crKeyLength (sample_crypto 9) = crKeyLength (sample_crypto 7)" by (simp add: sample_crypto_def)
  from key_exchange_decrypts [OF sample_crypto_ok(1,2) sample_crypto_ok(3,3) this, of EvenAndOddKey "''secret''"]
  show ?thesis by blast
qed

definition entropy_ok :: "'g entropy \<Rightarrow> bool" where
  "entropy_ok entropy \<longleftrightarrow> (\<forall>n g b g'. entropy n g = (Some b, g') \<longrightarrow> length b = n)"

lemma wf_UnmarshalKM: "wf_crypto d \<Longrightarrow> wf_crypto (snd (crypto_UnmarshalKM dec kdf d km pass))"
  by (auto simp: crypto_UnmarshalKM_def Let_def wf_crypto_def split: sum.splits)

lemma wf_crypto_operations:
  assumes "entropy_ok entropy"
  shows "(crypto_New entropy n g = (Inr c, g') \<longrightarrow> wf_crypto c \<and> crKeyLength c = n)
    \<and> (wf_crypto d \<longrightarrow> wf_crypto (snd (fst (crypto_GenerateSEK entropy d key g))))
    \<and> (wf_crypto d \<longrightarrow> wf_crypto (snd (crypto_UnmarshalKM dec kdf d km pass)))"
  using assms wf_UnmarshalKM [of d dec kdf km pass]
  by (fastforce simp: crypto_New_def crypto_GenerateSEK_def crypto_generateSEK_def entropy_ok_def wf_crypto_def
      split: if_splits prod.splits option.splits sum.splits)

text \<open>
  C20. Key state is well formed from creation on: \<open>New\<close> gives a 16-byte salt and two keys of the key length,
  and neither generating a key nor processing any key material message, accepted or refused, changes a length.
\<close>

theorem crypto_state_well_formed:
  assumes "entropy_ok entropy"
  shows "(crypto_New entropy n g = (Inr c, g') \<longrightarrow> wf_crypto c \<and> crKeyLength c = n)
    \<and> (wf_crypto d \<longrightarrow> wf_crypto (snd (fst (crypto_GenerateSEK entropy d key g))))
    \<and> (wf_crypto d \<longrightarrow> wf_crypto (snd (crypto_UnmarshalKM dec kdf d km pass)))"
  by (rule wf_crypto_operations [OF assms])

theorem crypto_state_well_formed_witness:
  "entropy_ok (\<lambda>n g. (Some (replicate n g), g + 1)) \<and> (\<exists>c g'. crypto_New (\<lambda>n g. (Some (replicate n g), g + 1)) 24 0 = (Inr c, g')
    \<and> wf_crypto c \<and> crKeyLength c = 24)"
proof -
  let ?e = "\<lambda>n g. (Some (replicate n g), g + 1) :: bytes option \<times> u8"
  have e: "entropy_ok ?e" by (simp add: entropy_ok_def)
  obtain c g' where "crypto_New ?e 24 0 = (Inr c, g')" by (simp add: crypto_New_def crypto_generateSEK_def)
  with crypto_state_well_formed [OF e, of 24 0 c g'] e show ?thesis by blast
qed

text \<open>
  C21. A key material message that is refused leaves both keys unchanged and never makes the code panic. It
  does replace the salt when the message has one and only the unwrapping fails, as with a wrong passphrase:
  payloads are then encrypted with the salt of the refused message.
\<close>

theorem crypto_refused_message:
  assumes "crypto_UnmarshalKM dec kdf d km pass = (Some e, d')"
  shows "evenSEK d' = evenSEK d \<and> oddSEK d' = oddSEK d \<and> e \<noteq> Panic
    \<and> (e = Err ErrUnwrapFailed \<and> length (kmSalt km) = length (crSalt d) \<and> kmSalt km \<noteq> [] \<longrightarrow> crSalt d' = kmSalt km)"
proof -
  have "keywrap_Unwrap dec k w \<noteq> Inl Panic" if "8 \<le> length w" for k w
    using that by (auto simp: keywrap_Unwrap_def split: prod.splits if_splits)
  then show ?thesis
    using assms
    by (auto simp: crypto_UnmarshalKM_def Let_def split: if_splits sum.splits)
qed

definition refused_KM :: CIFKeyMaterialExtension where
  "refused_KM = zero_KM\<lparr>KeyBasedEncryption := EvenKeyEncrypted, kmSalt := replicate 16 3, kmWrap := replicate 24 0\<rparr>"

definition zero_cipher :: "bytes \<Rightarrow> bytes \<Rightarrow> bytes" where
  "zero_cipher k b = replicate 16 0"

lemma zero_cipher_pass:
  "fst (unwrap_pass (zero_cipher k) t a (r # rs)) = replicate 8 0"
  "length (snd (unwrap_pass (zero_cipher k) t a rs)) = length rs"
  by (induction rs arbitrary: t a r) (simp_all add: Let_def case_prod_beta zero_cipher_def)

lemma zero_cipher_refuses:
  "rs \<noteq> [] \<Longrightarrow> fst (unwrap_passes (zero_cipher k) n (a, rs)) = replicate 8 0"
proof -
  assume rs: "rs \<noteq> []"
  let ?f = "\<lambda>j (a, rs). unwrap_pass (zero_cipher k) (pass_start n j) a rs"
  have ne: "snd (fold ?f js (b, bs)) \<noteq> []" if "bs \<noteq> []" for js b bs
    using that
  proof (induction js arbitrary: b bs)
    case (Cons j js)
    have "snd (unwrap_pass (zero_cipher k) (pass_start n j) b bs) \<noteq> []"
      using zero_cipher_pass(2) [of k "pass_start n j" b bs] Cons.prems by (metis length_0_conv)
    then show ?case using Cons.IH by (metis (mono_tags, lifting) case_prod_conv comp_apply fold_simps(2) prod.collapse)
  qed simp
  obtain b r bs where "fold ?f [5, 4, 3, 2, 1] (a, rs) = (b, r # bs)"
    using ne [OF rs, of "[5, 4, 3, 2, 1]" a] by (metis neq_Nil_conv prod.collapse)
  moreover have "rev [0..<6] = [5, 4, 3, 2, 1] @ [0 :: nat]" by (simp add: upt_rec)
  ultimately show ?thesis
    unfolding unwrap_passes_def by (simp only: fold_append comp_apply fold_simps case_prod_conv id_apply zero_cipher_pass)
qed

theorem crypto_refused_message_witness:
  "\<exists>d'. crypto_UnmarshalKM zero_cipher sample_kdf (sample_crypto 9) refused_KM ''secret'' = (Some (Err ErrUnwrapFailed), d')
    \<and> evenSEK d' = evenSEK (sample_crypto 9) \<and> crSalt d' = replicate 16 3 \<and> crSalt (sample_crypto 9) = replicate 16 9"
proof -
  have b: "blocks8 (replicate 16 0) \<noteq> []" by (simp add: numeral_eq_Suc)
  have "keywrap_Unwrap zero_cipher k (replicate 24 0) = Inl (Err ErrUnwrapFailed)" if "length k = 16" for k
    using zero_cipher_refuses [OF b, of k 2 "replicate 8 0"] that
    by (auto simp: keywrap_Unwrap_def aes_key_ok_def case_prod_beta)
  then obtain d' where d: "crypto_UnmarshalKM zero_cipher sample_kdf (sample_crypto 9) refused_KM ''secret'' = (Some (Err ErrUnwrapFailed), d')"
    by (simp add: crypto_UnmarshalKM_def refused_KM_def sample_crypto_def crypto_calculateKEK_def sample_kdf_def
      PacketEncryption_IsValid_def Let_def)
  from crypto_refused_message [OF d] d show ?thesis by (auto simp: refused_KM_def sample_crypto_def)
qed

end
