(* ===== verification/Net_URL.thy ===== *)
theory Net_URL
  imports Prelude "HOL-Library.Char_ord" "HOL-Library.List_Lexorder"
begin

text \<open>
  The parts of Go's \<^verbatim>\<open>net/url\<close> and \<^verbatim>\<open>strconv\<close> that the configuration uses: query strings and
  numbers in decimal notation. A \<^verbatim>\<open>url.Values\<close> with one value per key is a list of pairs.
\<close>

section \<open>Escaping\<close>

definition unreserved :: "char \<Rightarrow> bool" where
  "unreserved c \<longleftrightarrow> c \<in> set ''abcdefghijklmnopqrstuvwxyzABCDEFGHIJKLMNOPQRSTUVWXYZ0123456789-_.~''"

definition upper_hex :: "nat \<Rightarrow> char" where
  "upper_hex n = ''0123456789ABCDEF'' ! n"

definition unhex :: "char \<Rightarrow> nat option" where
  "unhex c =
     (let n = of_char c :: nat in
      if 48 \<le> n \<and> n \<le> 57 then Some (n - 48)
      else if 97 \<le> n \<and> n \<le> 102 then Some (n - 87)
      else if 65 \<le> n \<and> n \<le> 70 then Some (n - 55) else None)"

definition escape_char :: "char \<Rightarrow> string" where
  "escape_char c =
     (if unreserved c then [c]
      else if c = CHR '' '' then ''+''
      else let n = of_char c :: nat in [CHR ''%'', upper_hex (n div 16), upper_hex (n mod 16)])"

definition QueryEscape :: "string \<Rightarrow> string" where
  "QueryEscape s = concat (map escape_char s)"

fun QueryUnescape :: "string \<Rightarrow> string option" where
  "QueryUnescape [] = Some []"
| "QueryUnescape (c # s) =
     (if c = CHR ''%'' then
        (case s of
           a # b # t \<Rightarrow>
             (case (unhex a, unhex b) of
                (Some x, Some y) \<Rightarrow> map_option ((#) (char_of (16 * x + y))) (QueryUnescape t)
              | _ \<Rightarrow> None)
         | _ \<Rightarrow> None)
      else map_option ((#) (if c = CHR ''+'' then CHR '' '' else c)) (QueryUnescape s))"

section \<open>Query strings\<close>

fun split_on :: "char \<Rightarrow> string \<Rightarrow> string list" where
  "split_on d [] = [[]]"
| "split_on d (c # s) =
     (if c = d then [] # split_on d s
      else case split_on d s of x # xs \<Rightarrow> (c # x) # xs | [] \<Rightarrow> [[c]])"

fun join_with :: "char \<Rightarrow> string list \<Rightarrow> string" where
  "join_with d [] = []"
| "join_with d [x] = x"
| "join_with d (x # xs) = x @ d # join_with d xs"

definition cut_at :: "char \<Rightarrow> string \<Rightarrow> string \<times> string" where
  "cut_at d s = (takeWhile (\<lambda>c. c \<noteq> d) s, tl (dropWhile (\<lambda>c. c \<noteq> d) s))"

fun parse_pairs :: "string list \<Rightarrow> (string \<times> string) list option" where
  "parse_pairs [] = Some []"
| "parse_pairs (s # ss) =
     (if CHR '';'' \<in> set s then None
      else if s = [] then parse_pairs ss
      else let (k, v) = cut_at (CHR ''='') s in
        (case (QueryUnescape k, QueryUnescape v, parse_pairs ss) of
           (Some k, Some v, Some ps) \<Rightarrow> Some ((k, v) # ps)
         | _ \<Rightarrow> None))"

definition ParseQuery :: "string \<Rightarrow> (string \<times> string) list option" where
  "ParseQuery s = parse_pairs (split_on (CHR ''&'') s)"

definition Values_Get :: "(string \<times> string) list \<Rightarrow> string \<Rightarrow> string" where
  "Values_Get v k = (case map_of v k of None \<Rightarrow> [] | Some s \<Rightarrow> s)"

definition Values_Encode :: "(string \<times> string) list \<Rightarrow> string" where
  "Values_Encode q = join_with (CHR ''&'')
     (map (\<lambda>(k, v). QueryEscape k @ CHR ''='' # QueryEscape v) (sort_key fst q))"

section \<open>Round trip\<close>

lemma unhex_upper: "n < 16 \<Longrightarrow> unhex (upper_hex n) = Some n"
proof -
  have "\<forall>n \<in> set [0..<16]. unhex (upper_hex n) = Some n" by code_simp
  then show "n < 16 \<Longrightarrow> unhex (upper_hex n) = Some n" by simp
qed

lemma upper_hex_safe: "n < 16 \<Longrightarrow> upper_hex n \<notin> {CHR ''&'', CHR ''='', CHR '';''}"
proof -
  have "\<forall>n \<in> set [0..<16]. upper_hex n \<notin> {CHR ''&'', CHR ''='', CHR '';''}" by code_simp
  then show "n < 16 \<Longrightarrow> upper_hex n \<notin> {CHR ''&'', CHR ''='', CHR '';''}" by simp
qed

lemma reserved: "\<not> unreserved (CHR ''%'')" "\<not> unreserved (CHR ''+'')" "\<not> unreserved (CHR ''&'')"
  "\<not> unreserved (CHR ''='')" "\<not> unreserved (CHR '';'')"
  by code_simp+

lemma QueryUnescape_escape_char: "QueryUnescape (escape_char c @ s) = map_option ((#) c) (QueryUnescape s)"
proof -
  have d: "(of_char c :: nat) div 16 < 16" using nat_of_char_less_256 [of c] by (intro less_mult_imp_div_less) simp
  consider "unreserved c" | "\<not> unreserved c" "c = CHR '' ''" | "\<not> unreserved c" "c \<noteq> CHR '' ''" by blast
  then show ?thesis
  proof cases
    case 1
    then have "c \<noteq> CHR ''%''" "c \<noteq> CHR ''+''" using reserved by blast+
    then show ?thesis using 1 by (simp add: escape_char_def)
  next
    case 3
    then show ?thesis using d by (simp add: escape_char_def Let_def unhex_upper)
  qed (simp add: escape_char_def)
qed

lemma QueryUnescape_escape [simp]: "QueryUnescape (QueryEscape s) = Some s"
  by (induction s) (simp_all add: QueryEscape_def QueryUnescape_escape_char)

lemma escape_char_safe: "x \<in> set (escape_char c) \<Longrightarrow> x \<noteq> CHR ''&'' \<and> x \<noteq> CHR ''='' \<and> x \<noteq> CHR '';''"
proof -
  have d: "(of_char c :: nat) div 16 < 16" using nat_of_char_less_256 [of c] by (intro less_mult_imp_div_less) simp
  have m: "(of_char c :: nat) mod 16 < 16" by simp
  assume "x \<in> set (escape_char c)"
  then show ?thesis
    using upper_hex_safe [OF d] upper_hex_safe [OF m] reserved
    by (auto simp: escape_char_def Let_def split: if_splits)
qed

lemma QueryEscape_safe: "CHR ''&'' \<notin> set (QueryEscape s)" "CHR ''='' \<notin> set (QueryEscape s)" "CHR '';'' \<notin> set (QueryEscape s)"
  using escape_char_safe by (auto simp: QueryEscape_def)

lemma split_on_none: "d \<notin> set x \<Longrightarrow> split_on d x = [x]"
  by (induction x) auto

lemma split_on_first: "d \<notin> set x \<Longrightarrow> split_on d (x @ d # s) = x # split_on d s"
  by (induction x) auto

lemma split_on_join: "\<forall>x \<in> set xs. d \<notin> set x \<Longrightarrow> xs \<noteq> [] \<Longrightarrow> split_on d (join_with d xs) = xs"
  by (induction d xs rule: join_with.induct) (simp_all add: split_on_none split_on_first)

lemma cut_at_pair: "d \<notin> set k \<Longrightarrow> cut_at d (k @ d # v) = (k, v)"
  by (induction k) (auto simp: cut_at_def)

lemma parse_pairs_escaped:
  "parse_pairs (map (\<lambda>(k, v). QueryEscape k @ CHR ''='' # QueryEscape v) q) = Some q"
  using QueryEscape_safe by (induction q) (auto simp: cut_at_pair)

lemma ParseQuery_Encode: "ParseQuery (Values_Encode q) = Some (sort_key fst q)"
proof (cases "q = []")
  case True
  then show ?thesis by (simp add: ParseQuery_def Values_Encode_def)
next
  case False
  let ?xs = "map (\<lambda>(k, v). QueryEscape k @ CHR ''='' # QueryEscape v) (sort_key fst q)"
  have "?xs \<noteq> []" using False by (metis Nil_is_map_conv length_0_conv length_sort)
  moreover have "\<forall>x \<in> set ?xs. CHR ''&'' \<notin> set x" using QueryEscape_safe(1) by auto
  ultimately have "split_on (CHR ''&'') (join_with (CHR ''&'') ?xs) = ?xs" by (intro split_on_join)
  then show ?thesis
    unfolding ParseQuery_def Values_Encode_def by (simp only: parse_pairs_escaped)
qed

text \<open>With one value per key, encoding and parsing keeps the value of every key.\<close>

lemma Values_Get_Encode:
  assumes "distinct (map fst q)"
  shows "\<exists>v. ParseQuery (Values_Encode q) = Some v \<and> Values_Get v = Values_Get q"
proof -
  have "map_of (sort_key fst q) = map_of q"
    using assms by (intro map_of_inject_set [THEN iffD2])
      (simp_all add: distinct_map distinct_sort inj_on_def)
  then show ?thesis by (simp add: ParseQuery_Encode Values_Get_def fun_eq_iff)
qed

section \<open>Numbers\<close>

text \<open>\<^verbatim>\<open>strconv.ParseUint(s, 10, bits)\<close> and \<^verbatim>\<open>strconv.ParseInt(s, 10, 64)\<close>; \<open>None\<close> is an error.\<close>

fun digits_value :: "string \<Rightarrow> nat \<Rightarrow> nat option" where
  "digits_value [] n = Some n"
| "digits_value (c # s) n =
     (let d = of_char c :: nat in
      if 48 \<le> d \<and> d \<le> 57 then digits_value s (10 * n + (d - 48)) else None)"

definition ParseUint :: "nat \<Rightarrow> string \<Rightarrow> nat option" where
  "ParseUint bits s =
     (if s = [] then None
      else case digits_value s 0 of None \<Rightarrow> None | Some n \<Rightarrow> if n < 2 ^ bits then Some n else None)"

definition ParseInt64 :: "string \<Rightarrow> int option" where
  "ParseInt64 s =
     (if s = [] then None
      else
        let neg = (hd s = CHR ''-'');
            t = (if hd s = CHR ''+'' \<or> hd s = CHR ''-'' then tl s else s)
        in case ParseUint 64 t of
             None \<Rightarrow> None
           | Some n \<Rightarrow>
               if \<not> neg \<and> 2 ^ 63 \<le> n then None
               else if neg \<and> 2 ^ 63 < n then None
               else Some (if neg then - int n else int n))"

fun digits :: "nat \<Rightarrow> string" where
  "digits n = (if n < 10 then [char_of (48 + n)] else digits (n div 10) @ [char_of (48 + n mod 10)])"

declare digits.simps [simp del]

definition FormatInt :: "int \<Rightarrow> string" where
  "FormatInt i = (if i < 0 then CHR ''-'' # digits (nat (- i)) else digits (nat i))"

lemma digits_value_append: "digits_value (s @ t) n = (case digits_value s n of None \<Rightarrow> None | Some m \<Rightarrow> digits_value t m)"
  by (induction s arbitrary: n) (auto simp: Let_def)

lemma of_char_digit: "k < 10 \<Longrightarrow> (of_char (char_of (48 + k) :: char) :: nat) = 48 + k"
  by (simp add: of_char_of)

lemma digits_value_digits: "digits_value (digits n) 0 = Some n"
proof (induction n rule: digits.induct)
  case (1 n)
  show ?case
  proof (cases "n < 10")
    case True
    then show ?thesis by (subst digits.simps) (simp add: of_char_digit)
  next
    case False
    have "n mod 10 < 10" by simp
    then show ?thesis using 1 [OF False] False
      by (subst digits.simps) (simp add: digits_value_append of_char_digit Let_def)
  qed
qed

lemma digits_Nil [simp]: "digits n \<noteq> []"
  by (subst digits.simps) simp

lemma digits_hd: "hd (digits n) \<noteq> CHR ''-'' \<and> hd (digits n) \<noteq> CHR ''+''"
proof (induction n rule: digits.induct)
  case (1 n)
  show ?case
  proof (cases "n < 10")
    case True
    have "(of_char (hd (digits n)) :: nat) = 48 + n" using True by (subst digits.simps) (simp add: of_char_digit)
    moreover have "(of_char (CHR ''-'') :: nat) = 45" "(of_char (CHR ''+'') :: nat) = 43" by simp_all
    ultimately show ?thesis by force
  next
    case False
    then have "digits n = digits (n div 10) @ [char_of (48 + n mod 10)]" by (subst digits.simps) simp
    then show ?thesis using 1 [OF False] by (simp add: hd_append)
  qed
qed

lemma ParseUint_digits: "n < 2 ^ bits \<Longrightarrow> ParseUint bits (digits n) = Some n"
  by (simp add: ParseUint_def digits_value_digits)

lemma ParseInt64_FormatInt: "- (2 ^ 63) \<le> i \<Longrightarrow> i < 2 ^ 63 \<Longrightarrow> ParseInt64 (FormatInt i) = Some i"
  using digits_hd [of "nat i"]
  by (auto simp: ParseInt64_def FormatInt_def Let_def ParseUint_def digits_value_digits)

end
