(* ===== verification/Rand.thy ===== *)
theory Rand
  imports Crypto Net_URL
begin

text \<open>
  Random numbers and strings (\<^verbatim>\<open>rand/rand.go\<close>) over the system's random source, and the cookies of the
  handshake (\<^verbatim>\<open>net/syncookie.go\<close>). An \<open>int64\<close> is a 64-bit word that is compared as a signed number. The
  rejection loop of \<open>Int63n\<close> may run for ever, so it is a partial function. The hash function is an argument.
\<close>

section \<open>Random numbers\<close>

definition rand_Uint32 :: "'g entropy \<Rightarrow> 'g \<Rightarrow> (crypto_error + u32) \<times> 'g" where
  "rand_Uint32 entropy g =
     (case entropy 4 g of (None, g) \<Rightarrow> (Inl EntropyFailed, g) | (Some b, g) \<Rightarrow> (Inr (be32 b 0), g))"

definition rand_Int63 :: "'g entropy \<Rightarrow> 'g \<Rightarrow> (crypto_error + u64) \<times> 'g" where
  "rand_Int63 entropy g =
     (case entropy 8 g of
        (None, g) \<Rightarrow> (Inl EntropyFailed, g)
      | (Some b, g) \<Rightarrow> (Inr (be64 (b[0 := b ! 0 AND 0x7F])), g))"

partial_function (option) Int63n_loop ::
  "'g entropy \<Rightarrow> u64 \<Rightarrow> u64 \<Rightarrow> 'g \<Rightarrow> ((crypto_error + u64) \<times> 'g) option" where
  "Int63n_loop entropy m v g =
     (if sint m < sint v then
        (case rand_Int63 entropy g of
           (Inl e, g) \<Rightarrow> Some (Inl e, g)
         | (Inr v, g) \<Rightarrow> Int63n_loop entropy m v g)
      else Some (Inr v, g))"

definition Int63n_max :: "u64 \<Rightarrow> u64" where
  "Int63n_max n = 0x7FFFFFFFFFFFFFFF - 0x8000000000000000 mod n"

definition rand_Int63n :: "'g entropy \<Rightarrow> u64 \<Rightarrow> 'g \<Rightarrow> ((crypto_error + u64) \<times> 'g) option" where
  "rand_Int63n entropy n g =
     (if n AND (n - 1) = 0 then
        (case rand_Int63 entropy g of
           (Inl e, g) \<Rightarrow> Some (Inl e, g)
         | (Inr r, g) \<Rightarrow> Some (Inr (r AND (n - 1)), g))
      else
        let m = Int63n_max n in
        case rand_Int63 entropy g of
          (Inl e, g) \<Rightarrow> Some (Inl e, g)
        | (Inr v, g) \<Rightarrow>
            (case Int63n_loop entropy m v g of
               None \<Rightarrow> None
             | Some (Inl e, g) \<Rightarrow> Some (Inl e, g)
             | Some (Inr v, g) \<Rightarrow> Some (Inr (v mod n), g)))"

text \<open>An index outside of the character set, which only an empty set allows, panics.\<close>

fun RandomString_loop ::
  "'g entropy \<Rightarrow> nat \<Rightarrow> string \<Rightarrow> 'g \<Rightarrow> ((crypto_error, string) result \<times> 'g) option" where
  "RandomString_loop entropy 0 charset g = Some (Inr [], g)"
| "RandomString_loop entropy (Suc i) charset g =
     (case rand_Int63n entropy (of_nat (length charset)) g of
        None \<Rightarrow> None
      | Some (Inl e, g) \<Rightarrow> Some (Inl (Err e), g)
      | Some (Inr j, g) \<Rightarrow>
          if length charset \<le> unat j then Some (Inl Panic, g)
          else case RandomString_loop entropy i charset g of
            None \<Rightarrow> None
          | Some (Inl e, g) \<Rightarrow> Some (Inl e, g)
          | Some (Inr s, g) \<Rightarrow> Some (Inr (charset ! unat j # s), g))"

definition rand_RandomString ::
  "'g entropy \<Rightarrow> nat \<Rightarrow> string \<Rightarrow> 'g \<Rightarrow> ((crypto_error, string) result \<times> 'g) option" where
  "rand_RandomString entropy n charset g = RandomString_loop entropy n charset g"

definition AlphaNumericCharset :: string where
  "AlphaNumericCharset = ''abcdefghijklmnopqrstuvwxyzABCDEFGHIJKLMNOPQRSTUVWXYZ0123456789''"

section \<open>SYN cookies\<close>

definition to_bytes :: "string \<Rightarrow> bytes" where
  "to_bytes s = map of_char s"

record SYNCookie =
  secret1 :: string
  secret2 :: string
  daddr :: string

text \<open>\<^verbatim>\<open>time.Now().Unix() >> 6\<close>\<close>

definition defaultCounter :: "int \<Rightarrow> int" where
  "defaultCounter unix = unix div 64"

definition NewSYNCookie ::
  "'g entropy \<Rightarrow> string \<Rightarrow> 'g \<Rightarrow> ((crypto_error, SYNCookie) result \<times> 'g) option" where
  "NewSYNCookie entropy addr g =
     (case rand_RandomString entropy 32 AlphaNumericCharset g of
        None \<Rightarrow> None
      | Some (Inl e, g) \<Rightarrow> Some (Inl e, g)
      | Some (Inr s1, g) \<Rightarrow>
          (case rand_RandomString entropy 32 AlphaNumericCharset g of
             None \<Rightarrow> None
           | Some (Inl e, g) \<Rightarrow> Some (Inl e, g)
           | Some (Inr s2, g) \<Rightarrow> Some (Inr \<lparr>secret1 = s1, secret2 = s2, daddr = addr\<rparr>, g)))"

definition SYNCookie_calculate :: "(bytes \<Rightarrow> bytes) \<Rightarrow> SYNCookie \<Rightarrow> int \<Rightarrow> string \<Rightarrow> u32" where
  "SYNCookie_calculate md5 s counter saddr =
     be32 (md5 (to_bytes (secret1 s @ daddr s @ saddr @ secret2 s @ FormatInt counter))) 0"

definition SYNCookie_Get :: "(bytes \<Rightarrow> bytes) \<Rightarrow> SYNCookie \<Rightarrow> int \<Rightarrow> string \<Rightarrow> u32" where
  "SYNCookie_Get md5 s counter saddr = SYNCookie_calculate md5 s counter saddr"

definition SYNCookie_Verify :: "(bytes \<Rightarrow> bytes) \<Rightarrow> SYNCookie \<Rightarrow> int \<Rightarrow> u32 \<Rightarrow> string \<Rightarrow> bool" where
  "SYNCookie_Verify md5 s counter cookie saddr \<longleftrightarrow>
     (if SYNCookie_calculate md5 s counter saddr = cookie then True
      else if SYNCookie_calculate md5 s (counter - 1) saddr = cookie then True else False)"

section \<open>Properties\<close>

text \<open>
  The rejection loop ends as soon as a draw is not above the limit: after finitely many draws it has the value
  of the first such draw.
\<close>

fun draws :: "'g entropy \<Rightarrow> nat \<Rightarrow> 'g \<Rightarrow> (u64 list \<times> 'g) option" where
  "draws entropy 0 g = Some ([], g)"
| "draws entropy (Suc k) g =
     (case rand_Int63 entropy g of
        (Inl e, g) \<Rightarrow> None
      | (Inr v, g) \<Rightarrow> (case draws entropy k g of None \<Rightarrow> None | Some (vs, g) \<Rightarrow> Some (v # vs, g)))"

lemma Int63n_loop_returns:
  "draws entropy k g = Some (vs, g') \<Longrightarrow> \<exists>w \<in> set (v # vs). sint w \<le> sint m \<Longrightarrow>
     \<exists>w h. Int63n_loop entropy m v g = Some (Inr w, h) \<and> sint w \<le> sint m \<and> w \<in> set (v # vs)"
proof (induction k arbitrary: v g vs)
  case 0
  then show ?case by (subst Int63n_loop.simps) auto
next
  case (Suc k)
  show ?case
  proof (cases "sint m < sint v")
    case False
    then show ?thesis by (subst Int63n_loop.simps) auto
  next
    case True
    obtain u ws h where u: "rand_Int63 entropy g = (Inr u, h)" "draws entropy k h = Some (ws, g')" "vs = u # ws"
      using Suc.prems(1) by (auto split: prod.splits sum.splits option.splits)
    then have "\<exists>w \<in> set (u # ws). sint w \<le> sint m" using Suc.prems(2) True by auto
    from Suc.IH [OF u(2) this] show ?thesis
      using True u(1,3) by (subst Int63n_loop.simps) auto
  qed
qed

lemma Int63n_loop_bound:
  assumes "Int63n_loop entropy m v g = Some y" and "fst y = Inr w"
  shows "sint w \<le> sint m"
proof -
  have "\<forall>w. fst y = Inr w \<longrightarrow> sint w \<le> sint m"
  proof (rule Int63n_loop.raw_induct [where P = "\<lambda>entropy m v g y. \<forall>w. fst y = Inr w \<longrightarrow> sint w \<le> sint m"])
    show "Int63n_loop entropy m v g = Some y" by (rule assms(1))
  qed (fastforce split: if_splits prod.splits sum.splits)
  then show ?thesis using assms(2) by blast
qed

lemma mask_bound: "(n :: u64) \<noteq> 0 \<Longrightarrow> r AND (n - 1) < n"
proof -
  assume n: "n \<noteq> 0"
  have "r AND (n - 1) \<le> n - 1" by (simp add: word_and_le1)
  also have "n - 1 < n" using measure_unat [OF n] by (simp add: word_less_nat_alt)
  finally show ?thesis .
qed

lemma Int63n_bound:
  "n \<noteq> 0 \<Longrightarrow> rand_Int63n entropy n g = Some (Inr v, g') \<Longrightarrow> v < n"
  using mask_bound [of n]
  by (auto simp: rand_Int63n_def Let_def word_mod_less_divisor word_greater_zero_iff
      split: if_splits prod.splits sum.splits option.splits)

lemma Int63n_max_unbiased:
  assumes "n \<noteq> 0" and "n < 0x8000000000000000"
  shows "unat n dvd Suc (unat (Int63n_max n))"
proof -
  let ?h = "2 ^ 63 :: nat" and ?r = "2 ^ 63 mod unat n"
  have r: "unat (0x8000000000000000 mod n) = ?r" by (simp add: unat_mod_distrib)
  have "0 < unat n" "unat n < ?h" using assms by (simp_all add: unat_gt_0 word_less_nat_alt)
  then have "?r < ?h" using mod_less_divisor [of "unat n" ?h] by linarith
  then have "unat (Int63n_max n) = ?h - 1 - ?r"
    using r unat_sub [of "0x8000000000000000 mod n" "0x7FFFFFFFFFFFFFFF"]
    by (simp add: Int63n_max_def word_le_nat_alt)
  then have "Suc (unat (Int63n_max n)) = ?h - ?r" using \<open>?r < ?h\<close> by simp
  then show ?thesis by (simp add: dvd_minus_mod)
qed

text \<open>
  C24. \<open>Int63n\<close> terminates and its result is below the limit: if among the next draws of the random source
  one is not rejected, it returns a number below \<open>n\<close>. The rejection makes the reduction unbiased: the number of
  accepted values is a multiple of \<open>n\<close>.
\<close>

theorem Int63n_terminates:
  assumes "n \<noteq> 0" and "n < 0x8000000000000000"
    and "draws entropy (Suc k) g = Some (vs, g')" and "\<exists>w \<in> set vs. sint w \<le> sint (Int63n_max n)"
  shows "(\<exists>v h. rand_Int63n entropy n g = Some (Inr v, h) \<and> v < n) \<and> unat n dvd Suc (unat (Int63n_max n))"
proof -
  obtain u ws h where u: "rand_Int63 entropy g = (Inr u, h)" "draws entropy k h = Some (ws, g')" "vs = u # ws"
    using assms(3) by (auto split: prod.splits sum.splits option.splits)
  then obtain w i where "Int63n_loop entropy (Int63n_max n) u h = Some (Inr w, i)"
    using Int63n_loop_returns [OF u(2), of u "Int63n_max n"] assms(4) by auto
  then obtain v j where v: "rand_Int63n entropy n g = Some (Inr v, j)"
    using u(1) by (cases "n AND (n - 1) = 0") (auto simp: rand_Int63n_def Let_def)
  have "v < n" by (rule Int63n_bound [OF assms(1) v])
  then show ?thesis using v Int63n_max_unbiased [OF assms(1,2)] by simp
qed

definition sample_entropy :: "nat \<Rightarrow> u8 \<Rightarrow> bytes option \<times> u8" where
  "sample_entropy n g = (Some (replicate n g), g - 1)"

theorem Int63n_terminates_witness:
  "\<exists>v h. rand_Int63n sample_entropy 62 9 = Some (Inr v, h) \<and> v < 62"
proof -
  have d: "draws sample_entropy (Suc 0) 9 = Some ([be64 (replicate 8 9)], 8)" by code_simp
  have "sint (be64 (replicate 8 9)) \<le> sint (Int63n_max 62)" by code_simp
  with Int63n_terminates [OF _ _ d, of 62] show ?thesis by simp
qed

text \<open>
  C25. A random string has the requested length and only characters of the character set; with a set that is
  not empty the index is never out of range.
\<close>

theorem RandomString_valid:
  assumes "rand_RandomString entropy n charset g = Some (r, g')" and "charset \<noteq> []"
    and "length charset < 2 ^ 64"
  shows "r \<noteq> Inl Panic \<and> (\<forall>s. r = Inr s \<longrightarrow> length s = n \<and> set s \<subseteq> set charset)"
proof -
  have n: "(of_nat (length charset) :: u64) \<noteq> 0" "unat (of_nat (length charset) :: u64) = length charset"
    using assms(2,3) by (simp_all add: word_unat_eq_iff unsigned_of_nat take_bit_nat_eq_self)
  have b: "rand_Int63n entropy (of_nat (length charset)) h = Some (Inr j, h') \<Longrightarrow> unat j < length charset" for h j h'
    using Int63n_bound [OF n(1)] n(2) by (fastforce simp: word_less_nat_alt)
  show ?thesis
    using assms(1) unfolding rand_RandomString_def
  proof (induction n arbitrary: g r g')
    case (Suc n)
    obtain x h where x: "rand_Int63n entropy (of_nat (length charset)) g = Some (x, h)"
      using Suc.prems by (auto split: option.splits)
    show ?case
    proof (cases x)
      case (Inl e) then show ?thesis using Suc.prems x by auto
    next
      case (Inr j)
      have j: "unat j < length charset" using b x Inr by blast
      obtain y i where y: "RandomString_loop entropy n charset h = Some (y, i)"
        using Suc.prems x Inr j by (auto split: option.splits)
      show ?thesis using Suc.IH [OF y] Suc.prems x Inr j y by (cases y) auto
    qed
  qed simp
qed

theorem RandomString_valid_witness:
  "\<exists>s g'. rand_RandomString sample_entropy 3 ''ab'' 9 = Some (Inr s, g') \<and> length s = 3 \<and> set s \<subseteq> set ''ab''"
proof -
  have i: "rand_Int63n sample_entropy 2 g = Some (Inr (be64 ((replicate 8 g)[0 := g AND 0x7F]) AND 1), g - 1)" for g
    by (simp add: rand_Int63n_def rand_Int63_def sample_entropy_def)
  have "\<not> Suc (Suc 0) \<le> unat (x AND 1 :: u64)" for x
    using mask_bound [of 2 x] by (simp add: word_less_nat_alt)
  then obtain s g' where r: "rand_RandomString sample_entropy 3 ''ab'' 9 = Some (Inr s, g')"
    by (simp add: rand_RandomString_def numeral_3_eq_3 i not_le)
  from RandomString_valid [OF r] r show ?thesis by simp
qed

text \<open>
  C26. A cookie is accepted for at least 64 seconds: the cookie given to an address at one time verifies for the
  same address at any time up to 64 seconds later, and verification accepts only the cookies of the current
  and the previous 64-second interval.
\<close>

theorem SYNCookie_lifetime:
  assumes "t \<le> t'" and "t' \<le> t + 64"
  shows "SYNCookie_Verify md5 s (defaultCounter t') (SYNCookie_Get md5 s (defaultCounter t) addr) addr
    \<and> (SYNCookie_Verify md5 s (defaultCounter t') c addr \<longleftrightarrow>
         c \<in> {SYNCookie_Get md5 s (defaultCounter t') addr, SYNCookie_Get md5 s (defaultCounter (t' - 64)) addr})"
proof -
  have "defaultCounter (t' - 64) = defaultCounter t' - 1" by (simp add: defaultCounter_def)
  moreover have "defaultCounter t = defaultCounter t' \<or> defaultCounter t = defaultCounter t' - 1"
    using assms unfolding defaultCounter_def by linarith
  ultimately show ?thesis by (auto simp: SYNCookie_Verify_def SYNCookie_Get_def)
qed

theorem SYNCookie_lifetime_witness:
  "SYNCookie_Verify (\<lambda>b. b) \<lparr>secret1 = ''ab'', secret2 = ''cd'', daddr = ''x''\<rparr> (defaultCounter 100)
     (SYNCookie_Get (\<lambda>b. b) \<lparr>secret1 = ''ab'', secret2 = ''cd'', daddr = ''x''\<rparr> (defaultCounter 40) ''y'') ''y''"
proof -
  have "(40 :: int) \<le> 100" "(100 :: int) \<le> 40 + 64" by simp_all
  from SYNCookie_lifetime [OF this] show ?thesis by blast
qed

end
