(* ===== verification/Config.thy ===== *)
theory Config
  imports Net_URL
begin

text \<open>
  The configuration of a connection (\<^verbatim>\<open>config.go\<close>): defaults, reading and writing it as the query of an
  URL, and its validation. Durations are in nanoseconds. The logger and the hook on the raw socket have no
  influence on these functions and are left out of the record.
\<close>

section \<open>The configuration\<close>

definition UDP_HEADER_SIZE :: nat where [simp]: "UDP_HEADER_SIZE = 28"
definition SRT_HEADER_SIZE :: nat where [simp]: "SRT_HEADER_SIZE = 16"
definition MIN_MSS_SIZE :: u32 where [simp]: "MIN_MSS_SIZE = 76"
definition MAX_MSS_SIZE :: u32 where [simp]: "MAX_MSS_SIZE = 1500"
definition MIN_PAYLOAD_SIZE :: u32 where [simp]: "MIN_PAYLOAD_SIZE = 32"
definition CFG_MAX_PAYLOAD_SIZE :: u32 where [simp]: "CFG_MAX_PAYLOAD_SIZE = 1456"
definition MIN_PASSPHRASE_SIZE :: nat where [simp]: "MIN_PASSPHRASE_SIZE = 10"
definition MAX_PASSPHRASE_SIZE :: nat where [simp]: "MAX_PASSPHRASE_SIZE = 80"
definition MAX_STREAMID_SIZE :: nat where [simp]: "MAX_STREAMID_SIZE = 512"
definition SRT_VERSION :: u32 where [simp]: "SRT_VERSION = 0x010401"

record Config =
  Congestion :: string
  ConnectionTimeout :: int
  DriftTracer :: bool
  EnforcedEncryption :: bool
  FC :: u32
  GroupConnect :: bool
  GroupStabilityTimeout :: int
  InputBW :: int
  IPTOS :: int
  IPTTL :: int
  IPv6Only :: int
  KMPreAnnounce :: u64
  KMRefreshRate :: u64
  Latency :: int
  LossMaxTTL :: u32
  MaxBW :: int
  MessageAPI :: bool
  MinInputBW :: int
  MinVersion :: u32
  MSS :: u32
  NAKReport :: bool
  OverheadBW :: int
  PacketFilter :: string
  Passphrase :: string
  PayloadSize :: u32
  PBKeylen :: int
  PeerIdleTimeout :: int
  PeerLatency :: int
  ReceiverBufferSize :: u32
  ReceiverLatency :: int
  SendBufferSize :: u32
  SendDropDelay :: int
  StreamId :: string
  TooLatePacketDrop :: bool
  TransmissionType :: string
  TSBPDMode :: bool
  AllowPeerIpChange :: bool

definition msec :: "int \<Rightarrow> int" where
  "msec n = n * 1000000"

definition defaultConfig :: Config where
  "defaultConfig =
     \<lparr>Congestion = ''live'', ConnectionTimeout = msec 3000, DriftTracer = True, EnforcedEncryption = True,
      FC = 25600, GroupConnect = False, GroupStabilityTimeout = 0, InputBW = 0, IPTOS = 0, IPTTL = 0,
      IPv6Only = - 1, KMPreAnnounce = 4096, KMRefreshRate = 16777216, Latency = - 1, LossMaxTTL = 0,
      MaxBW = - 1, MessageAPI = False, MinInputBW = 0, MinVersion = SRT_VERSION, MSS = MAX_MSS_SIZE,
      NAKReport = True, OverheadBW = 25, PacketFilter = '''', Passphrase = '''',
      PayloadSize = CFG_MAX_PAYLOAD_SIZE, PBKeylen = 16, PeerIdleTimeout = msec 5000,
      PeerLatency = msec 120, ReceiverBufferSize = 0, ReceiverLatency = msec 120, SendBufferSize = 0,
      SendDropDelay = msec 1000, StreamId = '''', TooLatePacketDrop = True, TransmissionType = ''live'',
      TSBPDMode = True, AllowPeerIpChange = False\<rparr>"

definition DefaultConfig :: Config where
  "DefaultConfig = defaultConfig"

section \<open>Reading a query\<close>

text \<open>
  One conditional assignment of \<open>UnmarshalQuery\<close> for each type of field. A value that does not parse,
  such as the empty one of an absent key, leaves the field as it is. The product of a duration wraps around at 64 bits.
\<close>

definition wrap64 :: "int \<Rightarrow> int" where
  "wrap64 i = (i + 2 ^ 63) mod 2 ^ 64 - 2 ^ 63"

definition get_string :: "string \<Rightarrow> ((string \<Rightarrow> string) \<Rightarrow> Config \<Rightarrow> Config) \<Rightarrow> Config \<Rightarrow> Config" where
  "get_string s upd c = (if s \<noteq> [] then upd (\<lambda>_. s) c else c)"

definition get_bool :: "string \<Rightarrow> ((bool \<Rightarrow> bool) \<Rightarrow> Config \<Rightarrow> Config) \<Rightarrow> Config \<Rightarrow> Config" where
  "get_bool s upd c =
     (if s \<in> {''yes'', ''on'', ''true'', ''1''} then upd (\<lambda>_. True) c
      else if s \<in> {''no'', ''off'', ''false'', ''0''} then upd (\<lambda>_. False) c else c)"

definition get_int :: "string \<Rightarrow> ((int \<Rightarrow> int) \<Rightarrow> Config \<Rightarrow> Config) \<Rightarrow> Config \<Rightarrow> Config" where
  "get_int s upd c = (case ParseInt64 s of None \<Rightarrow> c | Some d \<Rightarrow> upd (\<lambda>_. d) c)"

definition get_duration :: "string \<Rightarrow> ((int \<Rightarrow> int) \<Rightarrow> Config \<Rightarrow> Config) \<Rightarrow> Config \<Rightarrow> Config" where
  "get_duration s upd c = (case ParseInt64 s of None \<Rightarrow> c | Some d \<Rightarrow> upd (\<lambda>_. wrap64 (msec d)) c)"

definition get_u32 :: "string \<Rightarrow> ((u32 \<Rightarrow> u32) \<Rightarrow> Config \<Rightarrow> Config) \<Rightarrow> Config \<Rightarrow> Config" where
  "get_u32 s upd c = (case ParseUint 32 s of None \<Rightarrow> c | Some d \<Rightarrow> upd (\<lambda>_. of_nat d) c)"

definition get_u64 :: "string \<Rightarrow> ((u64 \<Rightarrow> u64) \<Rightarrow> Config \<Rightarrow> Config) \<Rightarrow> Config \<Rightarrow> Config" where
  "get_u64 s upd c = (case ParseUint 64 s of None \<Rightarrow> c | Some d \<Rightarrow> upd (\<lambda>_. of_nat d) c)"

definition Config_read_first :: "(string \<Rightarrow> string) \<Rightarrow> Config \<Rightarrow> Config" where
  "Config_read_first v c =
     (let c = get_string (v ''congestion'') Congestion_update c;
          c = get_duration (v ''conntimeo'') ConnectionTimeout_update c;
          c = get_bool (v ''drifttracer'') DriftTracer_update c;
          c = get_bool (v ''enforcedencryption'') EnforcedEncryption_update c;
          c = get_u32 (v ''fc'') FC_update c;
          c = get_bool (v ''groupconnect'') GroupConnect_update c;
          c = get_duration (v ''groupstabtimeo'') GroupStabilityTimeout_update c;
          c = get_int (v ''inputbw'') InputBW_update c;
          c = get_int (v ''iptos'') IPTOS_update c;
          c = get_int (v ''ipttl'') IPTTL_update c;
          c = get_int (v ''ipv6only'') IPv6Only_update c;
          c = get_u64 (v ''kmpreannounce'') KMPreAnnounce_update c;
          c = get_u64 (v ''kmrefreshrate'') KMRefreshRate_update c;
          c = get_duration (v ''latency'') Latency_update c;
          c = get_u32 (v ''lossmaxttl'') LossMaxTTL_update c;
          c = get_int (v ''maxbw'') MaxBW_update c;
          c = get_int (v ''mininputbw'') MinInputBW_update c;
          c = get_bool (v ''messageapi'') MessageAPI_update c
      in c)"

definition Config_read_second :: "(string \<Rightarrow> string) \<Rightarrow> Config \<Rightarrow> Config" where
  "Config_read_second v c =
     (let c = get_u32 (v ''mss'') MSS_update c;
          c = get_bool (v ''nakreport'') NAKReport_update c;
          c = get_int (v ''oheadbw'') OverheadBW_update c;
          c = get_string (v ''packetfilter'') PacketFilter_update c;
          c = get_string (v ''passphrase'') Passphrase_update c;
          c = get_u32 (v ''payloadsize'') PayloadSize_update c;
          c = get_int (v ''pbkeylen'') PBKeylen_update c;
          c = get_duration (v ''peeridletimeo'') PeerIdleTimeout_update c;
          c = get_duration (v ''peerlatency'') PeerLatency_update c;
          c = get_u32 (v ''rcvbuf'') ReceiverBufferSize_update c;
          c = get_duration (v ''rcvlatency'') ReceiverLatency_update c;
          c = get_u32 (v ''sndbuf'') SendBufferSize_update c;
          c = get_duration (v ''snddropdelay'') SendDropDelay_update c;
          c = get_string (v ''streamid'') StreamId_update c;
          c = get_bool (v ''tlpktdrop'') TooLatePacketDrop_update c;
          c = get_string (v ''transtype'') TransmissionType_update c;
          c = get_bool (v ''tsbpdmode'') TSBPDMode_update c
      in c)"

definition Config_read :: "(string \<Rightarrow> string) \<Rightarrow> Config \<Rightarrow> Config" where
  "Config_read v c = Config_read_second v (Config_read_first v c)"

datatype config_error = QueryError | URLError | NotSRT
  | BadTransmissionType | BadCongestion | BadConnectionTimeout | BadGroupConnect | BadIPTOS | BadIPTTL
  | BadIPv6Only | BadKMPreAnnounce | BadMinVersion | BadMSS | BadNAKReport | BadOverheadBW | BadPacketFilter
  | BadPassphrase | BadPayloadSize | PayloadTooLarge | BadPBKeylen | BadPeerLatency | BadReceiverLatency
  | BadSendDropDelay | BadStreamId | BadTooLatePacketDrop | BadTSBPDMode

definition Config_UnmarshalQuery :: "Config \<Rightarrow> string \<Rightarrow> config_error + Config" where
  "Config_UnmarshalQuery c query =
     (case ParseQuery query of
        None \<Rightarrow> Inl QueryError
      | Some v \<Rightarrow> Inr (Config_read (Values_Get v) c))"

text \<open>\<^verbatim>\<open>url.Parse\<close> is an argument: it gives the scheme, the host and the raw query.\<close>

definition Config_UnmarshalURL ::
  "(string \<Rightarrow> (string \<times> string \<times> string) option) \<Rightarrow> Config \<Rightarrow> string \<Rightarrow> config_error + string \<times> Config" where
  "Config_UnmarshalURL url_Parse c srturl =
     (case url_Parse srturl of
        None \<Rightarrow> Inl URLError
      | Some (scheme, host, rawQuery) \<Rightarrow>
          if scheme \<noteq> ''srt'' then Inl NotSRT
          else case Config_UnmarshalQuery c rawQuery of Inl e \<Rightarrow> Inl e | Inr c \<Rightarrow> Inr (host, c))"

section \<open>Writing a query\<close>

definition FormatBool :: "bool \<Rightarrow> string" where
  "FormatBool b = (if b then ''true'' else ''false'')"

text \<open>\<^verbatim>\<open>Duration.Milliseconds\<close> truncates towards zero.\<close>

definition Milliseconds :: "int \<Rightarrow> int" where
  "Milliseconds d = sgn d * (\<bar>d\<bar> div 1000000)"

definition FormatUint :: "nat \<Rightarrow> string" where
  "FormatUint n = digits n"

text \<open>The entry of a key, or none when the field has its default value.\<close>

definition entry :: "bool \<Rightarrow> string \<Rightarrow> string option" where
  "entry b s = (if b then Some s else None)"

definition Config_entries :: "Config \<Rightarrow> (string \<times> string option) list" where
  "Config_entries c =
     (let d = defaultConfig; secret = (Passphrase c \<noteq> []) in
      [(''congestion'', entry (Congestion c \<noteq> Congestion d) (Congestion c)),
       (''conntimeo'', entry (ConnectionTimeout c \<noteq> ConnectionTimeout d) (FormatInt (Milliseconds (ConnectionTimeout c)))),
       (''drifttracer'', entry (DriftTracer c \<noteq> DriftTracer d) (FormatBool (DriftTracer c))),
       (''enforcedencryption'', entry (EnforcedEncryption c \<noteq> EnforcedEncryption d) (FormatBool (EnforcedEncryption c))),
       (''fc'', entry (FC c \<noteq> FC d) (FormatUint (unat (FC c)))),
       (''groupconnect'', entry (GroupConnect c \<noteq> GroupConnect d) (FormatBool (GroupConnect c))),
       (''groupstabtimeo'', entry (GroupStabilityTimeout c \<noteq> GroupStabilityTimeout d) (FormatInt (Milliseconds (GroupStabilityTimeout c)))),
       (''inputbw'', entry (InputBW c \<noteq> InputBW d) (FormatInt (InputBW c))),
       (''iptos'', entry (IPTOS c \<noteq> IPTOS d) (FormatInt (IPTOS c))),
       (''ipttl'', entry (IPTTL c \<noteq> IPTTL d) (FormatInt (IPTTL c))),
       (''ipv6only'', entry (IPv6Only c \<noteq> IPv6Only d) (FormatInt (IPv6Only c))),
       (''kmpreannounce'', entry (secret \<and> KMPreAnnounce c \<noteq> KMPreAnnounce d) (FormatUint (unat (KMPreAnnounce c)))),
       (''kmrefreshrate'', entry (secret \<and> KMRefreshRate c \<noteq> KMRefreshRate d) (FormatUint (unat (KMRefreshRate c)))),
       (''latency'', entry (Latency c \<noteq> Latency d) (FormatInt (Milliseconds (Latency c)))),
       (''lossmaxttl'', entry (LossMaxTTL c \<noteq> LossMaxTTL d) (FormatInt (uint (LossMaxTTL c)))),
       (''maxbw'', entry (MaxBW c \<noteq> MaxBW d) (FormatInt (MaxBW c))),
       (''mininputbw'', entry (MinInputBW c \<noteq> InputBW d) (FormatInt (MinInputBW c))),
       (''messageapi'', entry (MessageAPI c \<noteq> MessageAPI d) (FormatBool (MessageAPI c))),
       (''mss'', entry (MSS c \<noteq> MSS d) (FormatUint (unat (MSS c)))),
       (''nakreport'', entry (NAKReport c \<noteq> NAKReport d) (FormatBool (NAKReport c))),
       (''oheadbw'', entry (OverheadBW c \<noteq> OverheadBW d) (FormatInt (OverheadBW c))),
       (''packetfilter'', entry (PacketFilter c \<noteq> PacketFilter d) (PacketFilter c)),
       (''passphrase'', entry (Passphrase c \<noteq> []) (Passphrase c)),
       (''payloadsize'', entry (PayloadSize c \<noteq> PayloadSize d) (FormatUint (unat (PayloadSize c)))),
       (''pbkeylen'', entry (PBKeylen c \<noteq> PBKeylen d) (FormatInt (PBKeylen c))),
       (''peeridletimeo'', entry (PeerIdleTimeout c \<noteq> PeerIdleTimeout d) (FormatInt (Milliseconds (PeerIdleTimeout c)))),
       (''peerlatency'', entry (PeerLatency c \<noteq> PeerLatency d) (FormatInt (Milliseconds (PeerLatency c)))),
       (''rcvbuf'', entry (ReceiverBufferSize c \<noteq> ReceiverBufferSize d) (FormatInt (uint (ReceiverBufferSize c)))),
       (''rcvlatency'', entry (ReceiverLatency c \<noteq> ReceiverLatency d) (FormatInt (Milliseconds (ReceiverLatency c)))),
       (''sndbuf'', entry (SendBufferSize c \<noteq> SendBufferSize d) (FormatInt (uint (SendBufferSize c)))),
       (''snddropdelay'', entry (SendDropDelay c \<noteq> SendDropDelay d) (FormatInt (Milliseconds (SendDropDelay c)))),
       (''streamid'', entry (StreamId c \<noteq> []) (StreamId c)),
       (''tlpktdrop'', entry (TooLatePacketDrop c \<noteq> TooLatePacketDrop d) (FormatBool (TooLatePacketDrop c))),
       (''transtype'', entry (TransmissionType c \<noteq> TransmissionType d) (TransmissionType c)),
       (''tsbpdmode'', entry (TSBPDMode c \<noteq> TSBPDMode d) (FormatBool (TSBPDMode c)))])"

definition set_entries :: "(string \<times> string option) list \<Rightarrow> (string \<times> string) list" where
  "set_entries es = List.map_filter (\<lambda>(k, s). map_option (Pair k) s) es"

definition Config_MarshalQuery :: "Config \<Rightarrow> string" where
  "Config_MarshalQuery c = Values_Encode (set_entries (Config_entries c))"

definition Config_MarshalURL :: "Config \<Rightarrow> string \<Rightarrow> string" where
  "Config_MarshalURL c address = ''srt://'' @ address @ ''?'' @ Config_MarshalQuery c"

section \<open>Validation\<close>

text \<open>The result is the error, if any, and the configuration, which validation adjusts before it checks it.\<close>

definition Config_adjust :: "Config \<Rightarrow> Config" where
  "Config_adjust c = c\<lparr>Congestion := ''live'', NAKReport := True, TooLatePacketDrop := True, TSBPDMode := True\<rparr>"

definition Config_check_first :: "Config \<Rightarrow> config_error option" where
  "Config_check_first c =
     (if Congestion c \<noteq> ''live'' then Some BadCongestion
      else if ConnectionTimeout c \<le> 0 then Some BadConnectionTimeout
      else if GroupConnect c then Some BadGroupConnect
      else if IPTOS c > 0 \<and> IPTOS c > 255 then Some BadIPTOS
      else if IPTTL c > 0 \<and> IPTTL c > 255 then Some BadIPTTL
      else if IPv6Only c > 0 then Some BadIPv6Only
      else if KMRefreshRate c \<noteq> 0 \<and> (KMPreAnnounce c < 1 \<or> KMPreAnnounce c > KMRefreshRate c div 2)
        then Some BadKMPreAnnounce
      else None)"

definition Config_latency :: "Config \<Rightarrow> Config" where
  "Config_latency c = (if 0 \<le> Latency c then c\<lparr>PeerLatency := Latency c, ReceiverLatency := Latency c\<rparr> else c)"

definition Config_check_second :: "Config \<Rightarrow> config_error option" where
  "Config_check_second c =
     (if MinVersion c \<noteq> SRT_VERSION then Some BadMinVersion
      else if MSS c < MIN_MSS_SIZE \<or> MSS c > MAX_MSS_SIZE then Some BadMSS
      else if \<not> NAKReport c then Some BadNAKReport
      else if OverheadBW c < 10 \<or> OverheadBW c > 100 then Some BadOverheadBW
      else if length (PacketFilter c) \<noteq> 0 then Some BadPacketFilter
      else if length (Passphrase c) \<noteq> 0
          \<and> (length (Passphrase c) < MIN_PASSPHRASE_SIZE \<or> length (Passphrase c) > MAX_PASSPHRASE_SIZE)
        then Some BadPassphrase
      else if PayloadSize c < MIN_PAYLOAD_SIZE \<or> PayloadSize c > CFG_MAX_PAYLOAD_SIZE then Some BadPayloadSize
      else if PayloadSize c > MSS c - of_nat (SRT_HEADER_SIZE + UDP_HEADER_SIZE) then Some PayloadTooLarge
      else if PBKeylen c \<noteq> 16 \<and> PBKeylen c \<noteq> 24 \<and> PBKeylen c \<noteq> 32 then Some BadPBKeylen
      else if PeerLatency c < 0 then Some BadPeerLatency
      else if ReceiverLatency c < 0 then Some BadReceiverLatency
      else if SendDropDelay c < 0 then Some BadSendDropDelay
      else if length (StreamId c) > MAX_STREAMID_SIZE then Some BadStreamId
      else if \<not> TooLatePacketDrop c then Some BadTooLatePacketDrop
      else if TransmissionType c \<noteq> ''live'' then Some BadTransmissionType
      else if \<not> TSBPDMode c then Some BadTSBPDMode
      else None)"

definition Config_Validate :: "Config \<Rightarrow> config_error option \<times> Config" where
  "Config_Validate c =
     (if TransmissionType c \<noteq> ''live'' then (Some BadTransmissionType, c)
      else
        let c = Config_adjust c in
        case Config_check_first c of
          Some e \<Rightarrow> (Some e, c)
        | None \<Rightarrow>
            let c = Config_latency c in (Config_check_second c, c))"

section \<open>Round trip through the query\<close>

definition look :: "bool \<Rightarrow> string \<Rightarrow> string" where
  "look b s = (if b then s else [])"

lemma keys_distinct: "distinct (map fst (Config_entries c))"
  unfolding Config_entries_def Let_def by (simp add: Config_entries_def)

lemma set_entries_keys: "fst ` set (set_entries es) \<subseteq> fst ` set es"
  by (force simp: set_entries_def map_filter_def)

lemma set_entries_Cons [simp]:
  "set_entries [] = []" "set_entries ((k, None) # es) = set_entries es"
  "set_entries ((k, Some s) # es) = (k, s) # set_entries es"
  by (simp_all add: set_entries_def map_filter_def)

lemma Values_Get_entries:
  "distinct (map fst es) \<Longrightarrow> Values_Get (set_entries es) k = (case map_of es k of Some (Some s) \<Rightarrow> s | _ \<Rightarrow> [])"
proof (induction es)
  case (Cons e es)
  obtain l o' where e: "e = (l, o')" by fastforce
  have "map_of (set_entries es) l = None"
    using Cons.prems set_entries_keys [of es] by (auto simp: e map_of_eq_None_iff)
  moreover have "map_of es l = None" using Cons.prems by (auto simp: e map_of_eq_None_iff)
  ultimately show ?case using Cons e by (cases o') (auto simp: Values_Get_def)
qed (simp add: Values_Get_def)

lemma distinct_set_entries: "distinct (map fst es) \<Longrightarrow> distinct (map fst (set_entries es))"
proof (induction es)
  case (Cons e es)
  then show ?case using set_entries_keys [of es] by (cases e; cases "snd e") auto
qed simp

lemma entry_look [simp]: "(case entry b s of None \<Rightarrow> [] | Some s \<Rightarrow> s) = look b s"
  by (simp add: entry_def look_def)

definition pick :: "bool \<Rightarrow> 'a \<Rightarrow> 'a \<Rightarrow> 'a" where
  "pick b y = (if b then (\<lambda>_. y) else (\<lambda>x. x))"

lemma pick_simps [simp]: "pick True y = (\<lambda>_. y)" "pick False y = (\<lambda>x. x)" "pick (y \<noteq> x) y x = y"
  by (simp_all add: pick_def)

lemma get_string_look: "upd (\<lambda>x. x) c = c \<Longrightarrow> (b \<Longrightarrow> s \<noteq> []) \<Longrightarrow> get_string (look b s) upd c = upd (pick b s) c"
  by (cases b) (simp_all add: get_string_def look_def)

lemma get_bool_look: "upd (\<lambda>x. x) c = c \<Longrightarrow> get_bool (look b (FormatBool y)) upd c = upd (pick b y) c"
  by (cases b; cases y) (simp_all add: get_bool_def look_def FormatBool_def)

lemma get_int_look:
  "upd (\<lambda>x. x) c = c \<Longrightarrow> - (2 ^ 63) \<le> i \<Longrightarrow> i < 2 ^ 63 \<Longrightarrow> get_int (look b (FormatInt i)) upd c = upd (pick b i) c"
  by (cases b) (simp_all add: get_int_def look_def ParseInt64_FormatInt, simp add: ParseInt64_def)

lemma wrap64_id: "- (2 ^ 63) \<le> i \<Longrightarrow> i < 2 ^ 63 \<Longrightarrow> wrap64 i = i"
  by (simp add: wrap64_def)

text \<open>Durations that the query can express: whole milliseconds.\<close>

definition whole_ms :: "int \<Rightarrow> bool" where
  "whole_ms d \<longleftrightarrow> - (2 ^ 63) \<le> d \<and> d < 2 ^ 63 \<and> 1000000 dvd d"

lemma whole_ms_Milliseconds: "whole_ms d \<Longrightarrow> msec (Milliseconds d) = d \<and> - (2 ^ 63) \<le> Milliseconds d \<and> Milliseconds d < 2 ^ 63"
proof -
  assume d: "whole_ms d"
  then obtain k where k: "d = 1000000 * k" by (auto simp: whole_ms_def elim: dvdE)
  have "sgn d * (\<bar>d\<bar> div 1000000) = k"
    unfolding k by (simp add: abs_mult sgn_mult mult_sgn_abs)
  then show ?thesis using d k by (auto simp: msec_def Milliseconds_def whole_ms_def)
qed

lemma get_duration_look:
  "upd (\<lambda>x. x) c = c \<Longrightarrow> (b \<Longrightarrow> whole_ms d) \<Longrightarrow>
     get_duration (look b (FormatInt (Milliseconds d))) upd c = upd (pick b d) c"
  using whole_ms_Milliseconds [of d] wrap64_id [of d]
  by (cases b) (simp_all add: get_duration_def look_def ParseInt64_FormatInt whole_ms_def, simp add: ParseInt64_def)

lemma get_u32_look:
  "upd (\<lambda>x. x) c = c \<Longrightarrow> get_u32 (look b (FormatUint (unat w))) upd c = upd (pick b w) c"
  "upd (\<lambda>x. x) c = c \<Longrightarrow> get_u32 (look b (FormatInt (uint w))) upd c = upd (pick b w) c"
  using unsigned_less [of w, where 'a = nat]
  by (cases b, simp_all add: get_u32_def look_def FormatUint_def FormatInt_def ParseUint_def digits_value_digits)+

lemma get_u64_look:
  "upd (\<lambda>x. x) c = c \<Longrightarrow> get_u64 (look b (FormatUint (unat w))) upd c = upd (pick b w) c"
  using unsigned_less [of w, where 'a = nat]
  by (cases b) (simp_all add: get_u64_def look_def FormatUint_def ParseUint_def digits_value_digits)

lemma query_lookups:
  "Values_Get (set_entries (Config_entries c)) ''congestion'' = look (Congestion c \<noteq> Congestion defaultConfig) (Congestion c)"
  "Values_Get (set_entries (Config_entries c)) ''conntimeo'' = look (ConnectionTimeout c \<noteq> ConnectionTimeout defaultConfig) (FormatInt (Milliseconds (ConnectionTimeout c)))"
  "Values_Get (set_entries (Config_entries c)) ''drifttracer'' = look (DriftTracer c \<noteq> DriftTracer defaultConfig) (FormatBool (DriftTracer c))"
  "Values_Get (set_entries (Config_entries c)) ''enforcedencryption'' = look (EnforcedEncryption c \<noteq> EnforcedEncryption defaultConfig) (FormatBool (EnforcedEncryption c))"
  "Values_Get (set_entries (Config_entries c)) ''fc'' = look (FC c \<noteq> FC defaultConfig) (FormatUint (unat (FC c)))"
  "Values_Get (set_entries (Config_entries c)) ''groupconnect'' = look (GroupConnect c \<noteq> GroupConnect defaultConfig) (FormatBool (GroupConnect c))"
  "Values_Get (set_entries (Config_entries c)) ''groupstabtimeo'' = look (GroupStabilityTimeout c \<noteq> GroupStabilityTimeout defaultConfig) (FormatInt (Milliseconds (GroupStabilityTimeout c)))"
  "Values_Get (set_entries (Config_entries c)) ''inputbw'' = look (InputBW c \<noteq> InputBW defaultConfig) (FormatInt (InputBW c))"
  "Values_Get (set_entries (Config_entries c)) ''iptos'' = look (IPTOS c \<noteq> IPTOS defaultConfig) (FormatInt (IPTOS c))"
  "Values_Get (set_entries (Config_entries c)) ''ipttl'' = look (IPTTL c \<noteq> IPTTL defaultConfig) (FormatInt (IPTTL c))"
  "Values_Get (set_entries (Config_entries c)) ''ipv6only'' = look (IPv6Only c \<noteq> IPv6Only defaultConfig) (FormatInt (IPv6Only c))"
  "Values_Get (set_entries (Config_entries c)) ''kmpreannounce'' = look (Passphrase c \<noteq> [] \<and> KMPreAnnounce c \<noteq> KMPreAnnounce defaultConfig) (FormatUint (unat (KMPreAnnounce c)))"
  "Values_Get (set_entries (Config_entries c)) ''kmrefreshrate'' = look (Passphrase c \<noteq> [] \<and> KMRefreshRate c \<noteq> KMRefreshRate defaultConfig) (FormatUint (unat (KMRefreshRate c)))"
  "Values_Get (set_entries (Config_entries c)) ''latency'' = look (Latency c \<noteq> Latency defaultConfig) (FormatInt (Milliseconds (Latency c)))"
  "Values_Get (set_entries (Config_entries c)) ''lossmaxttl'' = look (LossMaxTTL c \<noteq> LossMaxTTL defaultConfig) (FormatInt (uint (LossMaxTTL c)))"
  "Values_Get (set_entries (Config_entries c)) ''maxbw'' = look (MaxBW c \<noteq> MaxBW defaultConfig) (FormatInt (MaxBW c))"
  "Values_Get (set_entries (Config_entries c)) ''mininputbw'' = look (MinInputBW c \<noteq> InputBW defaultConfig) (FormatInt (MinInputBW c))"
  "Values_Get (set_entries (Config_entries c)) ''messageapi'' = look (MessageAPI c \<noteq> MessageAPI defaultConfig) (FormatBool (MessageAPI c))"
  "Values_Get (set_entries (Config_entries c)) ''mss'' = look (MSS c \<noteq> MSS defaultConfig) (FormatUint (unat (MSS c)))"
  "Values_Get (set_entries (Config_entries c)) ''nakreport'' = look (NAKReport c \<noteq> NAKReport defaultConfig) (FormatBool (NAKReport c))"
  "Values_Get (set_entries (Config_entries c)) ''oheadbw'' = look (OverheadBW c \<noteq> OverheadBW defaultConfig) (FormatInt (OverheadBW c))"
  "Values_Get (set_entries (Config_entries c)) ''packetfilter'' = look (PacketFilter c \<noteq> PacketFilter defaultConfig) (PacketFilter c)"
  "Values_Get (set_entries (Config_entries c)) ''passphrase'' = look (Passphrase c \<noteq> []) (Passphrase c)"
  "Values_Get (set_entries (Config_entries c)) ''payloadsize'' = look (PayloadSize c \<noteq> PayloadSize defaultConfig) (FormatUint (unat (PayloadSize c)))"
  "Values_Get (set_entries (Config_entries c)) ''pbkeylen'' = look (PBKeylen c \<noteq> PBKeylen defaultConfig) (FormatInt (PBKeylen c))"
  "Values_Get (set_entries (Config_entries c)) ''peeridletimeo'' = look (PeerIdleTimeout c \<noteq> PeerIdleTimeout defaultConfig) (FormatInt (Milliseconds (PeerIdleTimeout c)))"
  "Values_Get (set_entries (Config_entries c)) ''peerlatency'' = look (PeerLatency c \<noteq> PeerLatency defaultConfig) (FormatInt (Milliseconds (PeerLatency c)))"
  "Values_Get (set_entries (Config_entries c)) ''rcvbuf'' = look (ReceiverBufferSize c \<noteq> ReceiverBufferSize defaultConfig) (FormatInt (uint (ReceiverBufferSize c)))"
  "Values_Get (set_entries (Config_entries c)) ''rcvlatency'' = look (ReceiverLatency c \<noteq> ReceiverLatency defaultConfig) (FormatInt (Milliseconds (ReceiverLatency c)))"
  "Values_Get (set_entries (Config_entries c)) ''sndbuf'' = look (SendBufferSize c \<noteq> SendBufferSize defaultConfig) (FormatInt (uint (SendBufferSize c)))"
  "Values_Get (set_entries (Config_entries c)) ''snddropdelay'' = look (SendDropDelay c \<noteq> SendDropDelay defaultConfig) (FormatInt (Milliseconds (SendDropDelay c)))"
  "Values_Get (set_entries (Config_entries c)) ''streamid'' = look (StreamId c \<noteq> []) (StreamId c)"
  "Values_Get (set_entries (Config_entries c)) ''tlpktdrop'' = look (TooLatePacketDrop c \<noteq> TooLatePacketDrop defaultConfig) (FormatBool (TooLatePacketDrop c))"
  "Values_Get (set_entries (Config_entries c)) ''transtype'' = look (TransmissionType c \<noteq> TransmissionType defaultConfig) (TransmissionType c)"
  "Values_Get (set_entries (Config_entries c)) ''tsbpdmode'' = look (TSBPDMode c \<noteq> TSBPDMode defaultConfig) (FormatBool (TSBPDMode c))"
  unfolding Values_Get_entries [OF keys_distinct] by (simp_all add: Config_entries_def Let_def)

lemma update_ids:
  "Congestion_update (\<lambda>x. x) c = c" "ConnectionTimeout_update (\<lambda>x. x) c = c" "DriftTracer_update (\<lambda>x. x) c = c" "EnforcedEncryption_update (\<lambda>x. x) c = c" "FC_update (\<lambda>x. x) c = c" "GroupConnect_update (\<lambda>x. x) c = c" "GroupStabilityTimeout_update (\<lambda>x. x) c = c" "InputBW_update (\<lambda>x. x) c = c" "IPTOS_update (\<lambda>x. x) c = c" "IPTTL_update (\<lambda>x. x) c = c" "IPv6Only_update (\<lambda>x. x) c = c" "KMPreAnnounce_update (\<lambda>x. x) c = c" "KMRefreshRate_update (\<lambda>x. x) c = c" "Latency_update (\<lambda>x. x) c = c" "LossMaxTTL_update (\<lambda>x. x) c = c" "MaxBW_update (\<lambda>x. x) c = c" "MinInputBW_update (\<lambda>x. x) c = c" "MessageAPI_update (\<lambda>x. x) c = c" "MSS_update (\<lambda>x. x) c = c" "NAKReport_update (\<lambda>x. x) c = c" "OverheadBW_update (\<lambda>x. x) c = c" "PacketFilter_update (\<lambda>x. x) c = c" "Passphrase_update (\<lambda>x. x) c = c" "PayloadSize_update (\<lambda>x. x) c = c" "PBKeylen_update (\<lambda>x. x) c = c" "PeerIdleTimeout_update (\<lambda>x. x) c = c" "PeerLatency_update (\<lambda>x. x) c = c" "ReceiverBufferSize_update (\<lambda>x. x) c = c" "ReceiverLatency_update (\<lambda>x. x) c = c" "SendBufferSize_update (\<lambda>x. x) c = c" "SendDropDelay_update (\<lambda>x. x) c = c" "StreamId_update (\<lambda>x. x) c = c" "TooLatePacketDrop_update (\<lambda>x. x) c = c" "TransmissionType_update (\<lambda>x. x) c = c" "TSBPDMode_update (\<lambda>x. x) c = c"
  by (cases c, simp)+

text \<open>
  The configurations that a query can express: durations of whole milliseconds, numbers of 64 bits, the only
  version and no change of the peer's address; an empty congestion control or transmission type and, without a
  passphrase, a key refresh rate are not written.
\<close>

definition int64 :: "int \<Rightarrow> bool" where
  "int64 i \<longleftrightarrow> - (2 ^ 63) \<le> i \<and> i < 2 ^ 63"

definition query_ok :: "Config \<Rightarrow> bool" where
  "query_ok c \<longleftrightarrow> Congestion c \<noteq> [] \<and> TransmissionType c \<noteq> [] \<and> MinVersion c = SRT_VERSION
     \<and> \<not> AllowPeerIpChange c
     \<and> (Passphrase c = [] \<longrightarrow> KMPreAnnounce c = 4096 \<and> KMRefreshRate c = 16777216)
     \<and> list_all int64 [InputBW c, IPTOS c, IPTTL c, IPv6Only c, MaxBW c, MinInputBW c, OverheadBW c, PBKeylen c]
     \<and> list_all whole_ms [ConnectionTimeout c, GroupStabilityTimeout c, PeerIdleTimeout c, PeerLatency c,
          ReceiverLatency c, SendDropDelay c]
     \<and> (Latency c = - 1 \<or> whole_ms (Latency c))"

lemma pick_bool: "pick (\<not> b) b True = b" "pick b b False = b"
  by (cases b; simp)+

lemmas read_look = get_string_look get_bool_look get_int_look get_duration_look get_u32_look get_u64_look

lemma Config_read_query:
  assumes "query_ok c"
  shows "Config_read (Values_Get (set_entries (Config_entries c))) defaultConfig = c"
proof -
  have ints: "- (2 ^ 63) \<le> InputBW c" "InputBW c < 2 ^ 63" "- (2 ^ 63) \<le> IPTOS c" "IPTOS c < 2 ^ 63"
      "- (2 ^ 63) \<le> IPTTL c" "IPTTL c < 2 ^ 63" "- (2 ^ 63) \<le> IPv6Only c" "IPv6Only c < 2 ^ 63"
      "- (2 ^ 63) \<le> MaxBW c" "MaxBW c < 2 ^ 63" "- (2 ^ 63) \<le> MinInputBW c" "MinInputBW c < 2 ^ 63"
      "- (2 ^ 63) \<le> OverheadBW c" "OverheadBW c < 2 ^ 63" "- (2 ^ 63) \<le> PBKeylen c" "PBKeylen c < 2 ^ 63"
    using assms by (simp_all add: query_ok_def int64_def)
  have durations: "whole_ms (ConnectionTimeout c)" "whole_ms (GroupStabilityTimeout c)" "whole_ms (PeerIdleTimeout c)"
      "whole_ms (PeerLatency c)" "whole_ms (ReceiverLatency c)" "whole_ms (SendDropDelay c)"
      "Latency c \<noteq> Latency defaultConfig \<Longrightarrow> whole_ms (Latency c)"
    using assms by (auto simp: query_ok_def defaultConfig_def)
  have strings: "Congestion c \<noteq> []" "TransmissionType c \<noteq> []" "PacketFilter c \<noteq> PacketFilter defaultConfig \<Longrightarrow> PacketFilter c \<noteq> []"
    using assms by (auto simp: query_ok_def defaultConfig_def)
  have rest: "MinVersion c = SRT_VERSION" "\<not> AllowPeerIpChange c"
      "Passphrase c = [] \<Longrightarrow> KMPreAnnounce c = 4096" "Passphrase c = [] \<Longrightarrow> KMRefreshRate c = 16777216"
    using assms by (auto simp: query_ok_def)
  show ?thesis
    unfolding Config_read_def Config_read_first_def Config_read_second_def Let_def query_lookups
    apply (simp only: read_look update_ids ints durations strings not_False_eq_True)
    using rest by (cases c; cases "Passphrase c = []") (simp_all add: defaultConfig_def pick_bool)
qed


definition sample_Config :: Config where
  "sample_Config = defaultConfig\<lparr>StreamId := ''publish:/live & more=1'', Passphrase := ''a secret, 100%'',
     KMRefreshRate := 1000, KMPreAnnounce := 100, Latency := msec 80, MaxBW := - 1, TooLatePacketDrop := False\<rparr>"


section \<open>What validation gives\<close>

text \<open>
  The promise of validation. A payload fits: with the headers of SRT and UDP it is no larger than a segment,
  computed in numbers that do not wrap around.
\<close>

definition valid_Config :: "Config \<Rightarrow> bool" where
  "valid_Config c \<longleftrightarrow>
     TransmissionType c = ''live'' \<and> Congestion c = ''live'' \<and> NAKReport c \<and> TooLatePacketDrop c \<and> TSBPDMode c
     \<and> \<not> GroupConnect c \<and> PacketFilter c = [] \<and> MinVersion c = SRT_VERSION
     \<and> 0 < ConnectionTimeout c \<and> IPTOS c \<le> 255 \<and> IPTTL c \<le> 255 \<and> IPv6Only c \<le> 0
     \<and> (KMRefreshRate c \<noteq> 0 \<longrightarrow> KMPreAnnounce c \<noteq> 0 \<and> KMPreAnnounce c \<le> KMRefreshRate c div 2)
     \<and> (Passphrase c = [] \<or> length (Passphrase c) \<in> {10..80}) \<and> length (StreamId c) \<le> 512
     \<and> unat (MSS c) \<in> {76..1500} \<and> 32 \<le> unat (PayloadSize c)
     \<and> unat (PayloadSize c) + SRT_HEADER_SIZE + UDP_HEADER_SIZE \<le> unat (MSS c)
     \<and> OverheadBW c \<in> {10..100} \<and> PBKeylen c \<in> {16, 24, 32}
     \<and> 0 \<le> PeerLatency c \<and> 0 \<le> ReceiverLatency c \<and> 0 \<le> SendDropDelay c
     \<and> (0 \<le> Latency c \<longrightarrow> PeerLatency c = Latency c \<and> ReceiverLatency c = Latency c)"

lemma guard_None: "(if b then Some e else r) = None \<longleftrightarrow> \<not> b \<and> r = None"
  by simp

lemma Config_check_first_iff:
  "Config_check_first c = None \<longleftrightarrow>
     Congestion c = ''live'' \<and> 0 < ConnectionTimeout c \<and> \<not> GroupConnect c \<and> IPTOS c \<le> 255 \<and> IPTTL c \<le> 255
     \<and> IPv6Only c \<le> 0 \<and> (KMRefreshRate c \<noteq> 0 \<longrightarrow> KMPreAnnounce c \<noteq> 0 \<and> KMPreAnnounce c \<le> KMRefreshRate c div 2)"
  unfolding Config_check_first_def guard_None by (auto simp: not_less)

lemma payload_fits:
  assumes "76 \<le> unat (MSS c)"
  shows "PayloadSize c > MSS c - of_nat (SRT_HEADER_SIZE + UDP_HEADER_SIZE) \<longleftrightarrow>
    unat (MSS c) < unat (PayloadSize c) + SRT_HEADER_SIZE + UDP_HEADER_SIZE"
proof -
  have "unat (MSS c - 44) = unat (MSS c) - 44"
    using assms by (subst unat_sub) (simp_all add: word_le_nat_alt)
  then show ?thesis using assms by (simp add: word_less_nat_alt) linarith
qed

lemma Config_check_second_iff:
  "Config_check_second c = None \<longleftrightarrow>
     MinVersion c = SRT_VERSION \<and> unat (MSS c) \<in> {76..1500} \<and> NAKReport c \<and> OverheadBW c \<in> {10..100}
     \<and> PacketFilter c = [] \<and> (Passphrase c = [] \<or> length (Passphrase c) \<in> {10..80})
     \<and> 32 \<le> unat (PayloadSize c) \<and> unat (PayloadSize c) + SRT_HEADER_SIZE + UDP_HEADER_SIZE \<le> unat (MSS c)
     \<and> PBKeylen c \<in> {16, 24, 32} \<and> 0 \<le> PeerLatency c \<and> 0 \<le> ReceiverLatency c \<and> 0 \<le> SendDropDelay c
     \<and> length (StreamId c) \<le> 512 \<and> TooLatePacketDrop c \<and> TransmissionType c = ''live'' \<and> TSBPDMode c"
proof (cases "76 \<le> unat (MSS c)")
  case True
  have mss: "(\<not> (MSS c < MIN_MSS_SIZE \<or> MAX_MSS_SIZE < MSS c)) = (unat (MSS c) \<in> {76..1500})"
    by (simp add: word_less_nat_alt not_less)
  have payload: "(\<not> (PayloadSize c < MIN_PAYLOAD_SIZE \<or> CFG_MAX_PAYLOAD_SIZE < PayloadSize c)) =
      (32 \<le> unat (PayloadSize c) \<and> unat (PayloadSize c) \<le> 1456)"
    by (simp add: word_less_nat_alt not_less)
  have rest: "(\<not> (OverheadBW c < 10 \<or> 100 < OverheadBW c)) = (OverheadBW c \<in> {10..100})"
    "(\<not> (length (Passphrase c) \<noteq> 0 \<and> (length (Passphrase c) < MIN_PASSPHRASE_SIZE \<or> MAX_PASSPHRASE_SIZE < length (Passphrase c)))) =
      (Passphrase c = [] \<or> length (Passphrase c) \<in> {10..80})"
    "(length (PacketFilter c) = 0) = (PacketFilter c = [])"
    "(\<not> (PBKeylen c \<noteq> 16 \<and> PBKeylen c \<noteq> 24 \<and> PBKeylen c \<noteq> 32)) = (PBKeylen c \<in> {16, 24, 32})"
    by (simp_all add: not_less)
  have "unat (MSS c) \<in> {76..1500} \<Longrightarrow> unat (PayloadSize c) + SRT_HEADER_SIZE + UDP_HEADER_SIZE \<le> unat (MSS c) \<Longrightarrow>
      unat (PayloadSize c) \<le> 1456" by simp
  then show ?thesis
    unfolding Config_check_second_def payload_fits [OF True] guard_None mss payload rest not_less not_not MAX_STREAMID_SIZE_def
    by blast
next
  case False
  then have "MSS c < MIN_MSS_SIZE" by (simp add: word_less_nat_alt)
  then show ?thesis using False unfolding Config_check_second_def guard_None atLeastAtMost_iff by blast
qed

lemmas Config_checks = Config_check_first_iff Config_check_second_iff

lemma Config_latency_fields:
  "Congestion (Config_latency c) = Congestion c" "ConnectionTimeout (Config_latency c) = ConnectionTimeout c"
  "GroupConnect (Config_latency c) = GroupConnect c" "IPTOS (Config_latency c) = IPTOS c" "IPTTL (Config_latency c) = IPTTL c"
  "IPv6Only (Config_latency c) = IPv6Only c" "KMRefreshRate (Config_latency c) = KMRefreshRate c"
  "KMPreAnnounce (Config_latency c) = KMPreAnnounce c" "Latency (Config_latency c) = Latency c"
  "0 \<le> Latency c \<longrightarrow> PeerLatency (Config_latency c) = Latency c \<and> ReceiverLatency (Config_latency c) = Latency c"
  by (simp_all add: Config_latency_def)

lemma Config_Validate_valid: "Config_Validate c = (None, c') \<Longrightarrow> valid_Config c'"
proof -
  assume "Config_Validate c = (None, c')"
  then have first: "Config_check_first (Config_adjust c) = None" and c': "c' = Config_latency (Config_adjust c)"
      and second: "Config_check_second c' = None"
    by (auto simp: Config_Validate_def Let_def split: if_split_asm option.split_asm)
  show ?thesis
    using first second Config_latency_fields [of "Config_adjust c"]
    unfolding Config_checks valid_Config_def c' by simp
qed

lemma valid_Config_Validate: "valid_Config c \<Longrightarrow> Config_Validate c = (None, c)"
proof -
  assume v: "valid_Config c"
  then have "Config_adjust c = c" by (cases c) (simp add: valid_Config_def Config_adjust_def)
  moreover have "Config_latency c = c"
    using v by (cases c) (simp add: valid_Config_def Config_latency_def)
  moreover have "Config_check_first c = None" "Config_check_second c = None"
    using v unfolding Config_checks valid_Config_def by simp_all
  ultimately show ?thesis using v by (simp add: Config_Validate_def valid_Config_def)
qed



end
