(* ===== verification/Connection.thy ===== *)
theory Connection
  imports Live_Receive Crypto Config
begin

text \<open>
  A connection (\<^verbatim>\<open>connection.go\<close>): its queues, the handlers of the packets that arrive, the packets it sends,
  the refresh of its keys and its end. The state is one record. A handler is a function on it; \<open>None\<close> is a
  panic. Packets handed to \<^verbatim>\<open>onSend\<close> are collected in \<open>outbox\<close>, calls of \<^verbatim>\<open>onShutdown\<close> and the
  goroutines that wait to close the connection are counted. Every operation reads the clock, in nanoseconds, as its
  argument \<open>now\<close>. The block cipher, the key derivation and the random source are in the record \<open>cenv\<close>.
  Where a \<^verbatim>\<open>select\<close> may find several cases ready, the argument \<open>sel\<close> says whether the end of the
  context is taken.
\<close>

section \<open>Round-trip time\<close>

record rtt =
  rttMean :: float64
  rttVariance :: float64

definition f_abs :: "float64 \<Rightarrow> float64" where
  "f_abs x = (if f_lt x (f64 0) then f_neg x else x)"

definition Microseconds :: "int \<Rightarrow> int" where
  "Microseconds d = go_quot d 1000"

definition rtt_Recalculate :: "int \<Rightarrow> rtt \<Rightarrow> rtt" where
  "rtt_Recalculate d r =
     (let lastRTT = f_of_int (Microseconds d);
          r = r\<lparr>rttMean := f_add (f_mul (rttMean r) (f64 (7 / 8))) (f_mul lastRTT (f64 (1 / 8)))\<rparr>
      in r\<lparr>rttVariance := f_add (f_mul (rttVariance r) (f64 (3 / 4)))
             (f_mul (f_abs (f_sub (rttMean r) lastRTT)) (f64 (1 / 4)))\<rparr>)"

definition rtt_RTT :: "rtt \<Rightarrow> float64" where
  "rtt_RTT r = rttMean r"

definition rtt_RTTVar :: "rtt \<Rightarrow> float64" where
  "rtt_RTTVar r = rttVariance r"

definition rtt_NAKInterval :: "rtt \<Rightarrow> float64" where
  "rtt_NAKInterval r =
     (let nakInterval = f_div (f_add (rttMean r) (f_mul (f64 4) (rttVariance r))) (f64 2)
      in if f_lt nakInterval (f64 20000) then f64 20000 else nakInterval)"

section \<open>State\<close>

record connStats =
  headerSize :: u64
  pktSentACK :: u64
  pktRecvACK :: u64
  pktSentACKACK :: u64
  pktRecvACKACK :: u64
  pktSentNAK :: u64
  pktRecvNAK :: u64
  pktSentKM :: u64
  pktRecvKM :: u64
  pktRecvUndecrypt :: u64
  byteRecvUndecrypt :: u64
  pktRecvInvalid :: u64
  pktSentKeepalive :: u64
  pktRecvKeepalive :: u64
  pktSentShutdown :: u64
  pktRecvShutdown :: u64
  mbpsLinkCapacity :: float64

text \<open>A cancel function: the nil function, or one that has been called or not.\<close>

datatype cancel_fn = NilFn | CancelFn bool

record 'g srtConn =
  version :: u32
  isCaller :: bool
  localAddr :: "go_addr option"
  remoteAddr :: "go_addr option"
  startTime :: int
  shutdownOnce :: bool
  socketId :: u32
  peerSocketId :: u32
  config :: Config
  conn_crypto :: "crypto option"
  keyBaseEncryption :: PacketEncryption
  kmPreAnnounceCountdown :: u64
  kmRefreshCountdown :: u64
  kmConfirmed :: bool
  peerIdleTimeout :: "int option"
  conn_rtt :: rtt
  ackNumbers :: "u32 \<rightharpoonup> int"
  nextACKNumber :: Number
  initialPacketSequenceNumber :: Number
  tsbpdTimeBase :: u64
  tsbpdWrapPeriod :: bool
  tsbpdTimeBaseOffset :: u64
  tsbpdDelay :: u64
  tsbpdDrift :: u64
  peerTsbpdDelay :: u64
  connDropThreshold :: u64
  networkQueue :: "pkt list"
  writeQueue :: "pkt list"
  writeBuffer :: bytes
  writeSize :: nat
  readQueue :: "pkt list"
  readBuffer :: bytes
  congestion_recv :: receiver
  congestion_snd :: sender
  ctxDone :: bool
  statistics :: connStats
  expectedRcvPacketSequenceNumber :: Number
  expectedReadPacketSequenceNumber :: Number
  stopHSRequests :: cancel_fn
  stopKMRequests :: cancel_fn
  outbox :: "pkt list"
  shutdownCalls :: nat
  closers :: nat
  networkReader :: bool
  writeReader :: bool
  tickerRuns :: bool
  hsTimer :: bool
  kmTimer :: bool
  random :: 'g

record srtConnConfig =
  cc_version :: u32
  cc_isCaller :: bool
  cc_localAddr :: "go_addr option"
  cc_remoteAddr :: "go_addr option"
  cc_config :: Config
  cc_start :: int
  cc_socketId :: u32
  cc_peerSocketId :: u32
  cc_tsbpdTimeBase :: u64
  cc_tsbpdDelay :: u64
  cc_peerTsbpdDelay :: u64
  cc_initialPacketSequenceNumber :: Number
  cc_crypto :: "crypto option"
  cc_keyBaseEncryption :: PacketEncryption

record 'g cenv =
  aesEnc :: "bytes \<Rightarrow> bytes \<Rightarrow> bytes"
  aesDec :: "bytes \<Rightarrow> bytes \<Rightarrow> bytes"
  pbkdf2 :: "string \<Rightarrow> bytes \<Rightarrow> nat \<Rightarrow> bytes"
  randRead :: "'g entropy"

definition QUEUE_SIZE :: nat where
  "QUEUE_SIZE = 1024"

definition zero_connStats :: connStats where
  "zero_connStats = \<lparr>headerSize = 0, pktSentACK = 0, pktRecvACK = 0, pktSentACKACK = 0, pktRecvACKACK = 0,
     pktSentNAK = 0, pktRecvNAK = 0, pktSentKM = 0, pktRecvKM = 0, pktRecvUndecrypt = 0, byteRecvUndecrypt = 0,
     pktRecvInvalid = 0, pktSentKeepalive = 0, pktRecvKeepalive = 0, pktSentShutdown = 0, pktRecvShutdown = 0,
     mbpsLinkCapacity = f64 0\<rparr>"

text \<open>\<^verbatim>\<open>max(uint64(float64(delay) * 1.25) + uint64(SendDropDelay), uint64(time.Second)) + 20_000\<close> in microseconds\<close>

definition drop_threshold :: "u64 \<Rightarrow> Config \<Rightarrow> u64" where
  "drop_threshold delay cfg =
     max (f_to_u64 (f_mul (f_of_u64 delay) (f64 (5 / 4))) + of_int (Microseconds (SendDropDelay cfg))) 1000000 + 20000"

text \<open>The size of \<^verbatim>\<open>writeData\<close>, which bounds the payload of the packets that \<open>Write\<close> makes.\<close>

definition write_size :: "u32 \<Rightarrow> Config \<Rightarrow> nat" where
  "write_size v cfg = (if v = 4 then unat (PayloadSize cfg div 188 * 188) else unat (PayloadSize cfg))"

definition header_size :: "go_addr \<Rightarrow> u64" where
  "header_size addr =
     (if length (filter (\<lambda>ch. ch = CHR '':'') (AddrString addr)) < 2 then 8 + 16 + 20 else 8 + 16 + 40)"

definition newSRTConn :: "int \<Rightarrow> srtConnConfig \<Rightarrow> 'g \<Rightarrow> 'g srtConn option" where
  "newSRTConn now cc g =
     (case cc_localAddr cc of
        None \<Rightarrow> None
      | Some addr \<Rightarrow>
          (let cfg = cc_config cc; hs4 = (cc_version cc = 4 \<and> cc_isCaller cc); km4 = (hs4 \<and> cc_crypto cc \<noteq> None) in
           Some \<lparr>version = cc_version cc, isCaller = cc_isCaller cc, localAddr = cc_localAddr cc,
             remoteAddr = cc_remoteAddr cc, startTime = cc_start cc, shutdownOnce = False,
             socketId = cc_socketId cc, peerSocketId = cc_peerSocketId cc, config = cfg,
             conn_crypto = cc_crypto cc, keyBaseEncryption = cc_keyBaseEncryption cc,
             kmPreAnnounceCountdown = KMRefreshRate cfg - KMPreAnnounce cfg,
             kmRefreshCountdown = KMRefreshRate cfg, kmConfirmed = False,
             peerIdleTimeout = Some (now + PeerIdleTimeout cfg),
             conn_rtt = \<lparr>rttMean = f64 100000, rttVariance = f64 50000\<rparr>,
             ackNumbers = (\<lambda>_. None), nextACKNumber = Number_New 1 MAX_TIMESTAMP,
             initialPacketSequenceNumber = cc_initialPacketSequenceNumber cc,
             tsbpdTimeBase = cc_tsbpdTimeBase cc, tsbpdWrapPeriod = False, tsbpdTimeBaseOffset = 0,
             tsbpdDelay = cc_tsbpdDelay cc, tsbpdDrift = 0, peerTsbpdDelay = cc_peerTsbpdDelay cc,
             connDropThreshold = drop_threshold (cc_peerTsbpdDelay cc) cfg,
             networkQueue = [], writeQueue = [], writeBuffer = [], writeSize = write_size (cc_version cc) cfg,
             readQueue = [], readBuffer = [],
             congestion_recv = NewReceiver \<lparr>rcInitialSequenceNumber = cc_initialPacketSequenceNumber cc,
               rcPeriodicACKInterval = 10000, rcPeriodicNAKInterval = 20000\<rparr>,
             congestion_snd = NewSender \<lparr>scInitialSequenceNumber = cc_initialPacketSequenceNumber cc,
               scDropThreshold = drop_threshold (cc_peerTsbpdDelay cc) cfg, scMaxBW = MaxBW cfg,
               scInputBW = InputBW cfg, scMinInputBW = MinInputBW cfg, scOverheadBW = OverheadBW cfg\<rparr>,
             ctxDone = False, statistics = zero_connStats\<lparr>headerSize := header_size addr\<rparr>,
             expectedRcvPacketSequenceNumber = cc_initialPacketSequenceNumber cc,
             expectedReadPacketSequenceNumber = cc_initialPacketSequenceNumber cc,
             stopHSRequests = (if hs4 then CancelFn False else NilFn),
             stopKMRequests = (if km4 then CancelFn False else NilFn),
             outbox = [], shutdownCalls = 0, closers = 0, networkReader = True, writeReader = True, tickerRuns = True,
             hsTimer = hs4, kmTimer = km4, random = g\<rparr>))"

definition srtConn_LocalAddr :: "(string \<Rightarrow> go_addr option) \<Rightarrow> 'g srtConn \<Rightarrow> go_addr option" where
  "srtConn_LocalAddr resolve c = (case localAddr c of None \<Rightarrow> None | Some a \<Rightarrow> resolve (AddrString a))"

definition srtConn_RemoteAddr :: "(string \<Rightarrow> go_addr option) \<Rightarrow> 'g srtConn \<Rightarrow> go_addr option" where
  "srtConn_RemoteAddr resolve c = (case remoteAddr c of None \<Rightarrow> None | Some a \<Rightarrow> resolve (AddrString a))"

definition srtConn_SocketId :: "'g srtConn \<Rightarrow> u32" where
  "srtConn_SocketId c = socketId c"

definition srtConn_PeerSocketId :: "'g srtConn \<Rightarrow> u32" where
  "srtConn_PeerSocketId c = peerSocketId c"

definition srtConn_StreamId :: "'g srtConn \<Rightarrow> string" where
  "srtConn_StreamId c = StreamId (config c)"

definition srtConn_Version :: "'g srtConn \<Rightarrow> u32" where
  "srtConn_Version c = version c"

section \<open>Clock\<close>

definition srtConn_getTimestamp :: "int \<Rightarrow> 'g srtConn \<Rightarrow> u64" where
  "srtConn_getTimestamp now c = of_int (Microseconds (time_Sub now (startTime c)))"

definition srtConn_getTimestampForPacket :: "int \<Rightarrow> 'g srtConn \<Rightarrow> u32" where
  "srtConn_getTimestampForPacket now c = ucast (srtConn_getTimestamp now c AND ucast MAX_TIMESTAMP)"

section \<open>Sending\<close>

text \<open>
  \<open>pop\<close> for a control packet, which needs neither lock nor key; \<open>pop\<close> on a data packet calls it through
  \<open>sendKMRequest\<close>.
\<close>

definition pop_address :: "'g srtConn \<Rightarrow> pkt \<Rightarrow> pkt" where
  "pop_address c p = p\<lparr>header := (header p)\<lparr>Addr := remoteAddr c, LocalAddr := localAddr c,
     DestinationSocketId := peerSocketId c\<rparr>\<rparr>"

definition pop_control :: "pkt \<Rightarrow> 'g srtConn \<Rightarrow> 'g srtConn" where
  "pop_control p c = c\<lparr>outbox := outbox c @ [pop_address c p]\<rparr>"

text \<open>A fresh control packet with the time of the connection.\<close>

definition control_pkt :: "int \<Rightarrow> 'g srtConn \<Rightarrow> CtrlType \<Rightarrow> CtrlSubType \<Rightarrow> pkt" where
  "control_pkt now c ct st =
     (let p = NewPacket (remoteAddr c)
      in p\<lparr>header := (header p)\<lparr>IsControlPacket := True, ControlType := ct, SubType := st,
            Timestamp := srtConn_getTimestampForPacket now c\<rparr>\<rparr>)"

definition srtConn_sendKMRequest :: "'g cenv \<Rightarrow> int \<Rightarrow> PacketEncryption \<Rightarrow> 'g srtConn \<Rightarrow> 'g srtConn" where
  "srtConn_sendKMRequest env now key c =
     (case conn_crypto c of
        None \<Rightarrow> c
      | Some cr \<Rightarrow>
          (let (e, cif) = crypto_MarshalKM (aesEnc env) (pbkdf2 env) cr zero_KM (Passphrase (config c)) key;
               p = control_pkt now c CTRLTYPE_USER EXTTYPE_KMREQ;
               (e, p) = pkt_MarshalCIF p (CIFKeyMaterialExtension_Marshal cif);
               c = c\<lparr>statistics := (statistics c)\<lparr>pktSentKM := pktSentKM (statistics c) + 1\<rparr>\<rparr>
           in pop_control p c))"

text \<open>The data branch of \<open>pop\<close>: the payload is encrypted in place, and the keys are refreshed.\<close>

definition pop_encrypt :: "'g cenv \<Rightarrow> crypto \<Rightarrow> 'g srtConn \<Rightarrow> pkt \<Rightarrow> pkt" where
  "pop_encrypt env cr c p =
     (let p = p\<lparr>header := (header p)\<lparr>KeyBaseEncryptionFlag := keyBaseEncryption c\<rparr>\<rparr> in
      if RetransmittedPacketFlag (header p) then p
      else case crypto_EncryptOrDecryptPayload (aesEnc env) cr (pkt_Data p)
                  (KeyBaseEncryptionFlag (header p)) (Number_Val (seqno p)) of
             Inl _ \<Rightarrow> p
           | Inr d \<Rightarrow> p\<lparr>payload := Some d\<rparr>)"

definition km_announce :: "'g cenv \<Rightarrow> int \<Rightarrow> 'g srtConn \<Rightarrow> 'g srtConn" where
  "km_announce env now c =
     (if kmPreAnnounceCountdown c = 0 \<and> \<not> kmConfirmed c then
        (srtConn_sendKMRequest env now (PacketEncryption_Opposite (keyBaseEncryption c)) c)
          \<lparr>kmPreAnnounceCountdown := KMPreAnnounce (config c) div 10 + 1\<rparr>
      else c)"

definition km_switch :: "'g srtConn \<Rightarrow> 'g srtConn" where
  "km_switch c =
     (if kmRefreshCountdown c = 0 then
        c\<lparr>kmPreAnnounceCountdown := KMRefreshRate (config c) - KMPreAnnounce (config c),
          kmRefreshCountdown := KMRefreshRate (config c),
          keyBaseEncryption := PacketEncryption_Opposite (keyBaseEncryption c), kmConfirmed := False\<rparr>
      else c)"

definition km_generate :: "'g cenv \<Rightarrow> crypto \<Rightarrow> 'g srtConn \<Rightarrow> 'g srtConn" where
  "km_generate env cr c =
     (if kmRefreshCountdown c = KMRefreshRate (config c) - KMPreAnnounce (config c) then
        (let ((e, cr), g) = crypto_GenerateSEK (randRead env) cr (PacketEncryption_Opposite (keyBaseEncryption c)) (random c)
         in c\<lparr>conn_crypto := Some cr, random := g\<rparr>)
      else c)"

definition km_countdown :: "'g srtConn \<Rightarrow> 'g srtConn" where
  "km_countdown c = c\<lparr>kmPreAnnounceCountdown := kmPreAnnounceCountdown c - 1,
     kmRefreshCountdown := kmRefreshCountdown c - 1\<rparr>"

definition srtConn_pop :: "'g cenv \<Rightarrow> int \<Rightarrow> pkt \<Rightarrow> 'g srtConn \<Rightarrow> pkt \<times> 'g srtConn" where
  "srtConn_pop env now p c =
     (let p = pop_address c p;
          (p, c) =
            (if IsControlPacket (header p) then (p, c)
             else case conn_crypto c of
                    None \<Rightarrow> (p, c)
                  | Some cr \<Rightarrow>
                      (pop_encrypt env cr c p, km_generate env cr (km_switch (km_announce env now (km_countdown c)))))
      in (p, c\<lparr>outbox := outbox c @ [p]\<rparr>))"

definition srtConn_sendShutdown :: "int \<Rightarrow> 'g srtConn \<Rightarrow> 'g srtConn" where
  "srtConn_sendShutdown now c =
     (let p = control_pkt now c CTRLTYPE_SHUTDOWN 0;
          (e, p) = pkt_MarshalCIF p (CIFShutdown_Marshal ());
          c = c\<lparr>statistics := (statistics c)\<lparr>pktSentShutdown := pktSentShutdown (statistics c) + 1\<rparr>\<rparr>
      in pop_control p c)"

definition srtConn_sendNAK :: "int \<Rightarrow> Number list \<Rightarrow> 'g srtConn \<Rightarrow> 'g srtConn" where
  "srtConn_sendNAK now l c =
     (let p = control_pkt now c CTRLTYPE_NAK 0;
          (e, p) = pkt_MarshalCIF p (CIFNAK_Marshal \<lparr>LostPacketSequenceNumber = l\<rparr>);
          c = c\<lparr>statistics := (statistics c)\<lparr>pktSentNAK := pktSentNAK (statistics c) + 1\<rparr>\<rparr>
      in pop_control p c)"

text \<open>
  The acknowledgement with its round-trip time and rates. It reads the rates of the receiver, which the
  periodic acknowledgement that calls it has not changed.
\<close>

definition ack_cif :: "Number \<Rightarrow> bool \<Rightarrow> 'g srtConn \<Rightarrow> CIFACK" where
  "ack_cif seq lite c =
     (let cif = \<lparr>IsLite = False, IsSmall = False, LastACKPacketSequenceNumber = seq, ackRTT = 0, ackRTTVar = 0,
                 AvailableBufferSize = 0, PacketsReceivingRate = 0, EstimatedLinkCapacity = 0, ReceivingRate = 0\<rparr>
      in if lite then cif\<lparr>IsLite := True\<rparr>
         else
           let (pps, bps, capacity) = receiver_PacketRate (congestion_recv c)
           in cif\<lparr>ackRTT := f_to_u32 (rtt_RTT (conn_rtt c)), ackRTTVar := f_to_u32 (rtt_RTTVar (conn_rtt c)),
                 AvailableBufferSize := FC (config c), PacketsReceivingRate := f_to_u32 pps,
                 EstimatedLinkCapacity := f_to_u32 capacity, ReceivingRate := f_to_u32 bps\<rparr>)"

definition next_ack :: "Number \<Rightarrow> Number" where
  "next_ack n = (let n = Number_Inc n in if Number_Val n = 0 then Number_Inc n else n)"

definition srtConn_sendACK :: "int \<Rightarrow> Number \<Rightarrow> bool \<Rightarrow> 'g srtConn \<Rightarrow> 'g srtConn" where
  "srtConn_sendACK now seq lite c =
     (let p = control_pkt now c CTRLTYPE_ACK 0;
          cif = ack_cif seq lite c;
          ts = (if lite then 0 else Number_Val (nextACKNumber c));
          p = p\<lparr>header := (header p)\<lparr>TypeSpecific := ts\<rparr>\<rparr>;
          c = (if lite then c
               else c\<lparr>ackNumbers := (ackNumbers c)(ts \<mapsto> now), nextACKNumber := next_ack (nextACKNumber c)\<rparr>);
          (e, p) = pkt_MarshalCIF p (CIFACK_Marshal cif);
          c = c\<lparr>statistics := (statistics c)\<lparr>pktSentACK := pktSentACK (statistics c) + 1\<rparr>\<rparr>
      in pop_control p c)"

definition srtConn_sendACKACK :: "int \<Rightarrow> u32 \<Rightarrow> 'g srtConn \<Rightarrow> 'g srtConn" where
  "srtConn_sendACKACK now ackSequence c =
     (let p = control_pkt now c CTRLTYPE_ACKACK 0;
          p = p\<lparr>header := (header p)\<lparr>TypeSpecific := ackSequence\<rparr>\<rparr>;
          c = c\<lparr>statistics := (statistics c)\<lparr>pktSentACKACK := pktSentACKACK (statistics c) + 1\<rparr>\<rparr>
      in pop_control p c)"

definition hs_request :: "Config \<Rightarrow> CIFHandshakeExtension" where
  "hs_request cfg =
     \<lparr>SRTVersion = 0x00010203,
      SRTFlags = \<lparr>TSBPDSND = True, TSBPDRCV = False, CRYPT = True, TLPKTDROP = True, PERIODICNAK = False,
                  REXMITFLG = True, STREAM = False, PACKET_FILTER = False\<rparr>,
      RecvTSBPDDelay = 0, SendTSBPDDelay = of_int (Milliseconds (ReceiverLatency cfg))\<rparr>"

definition srtConn_sendHSRequest :: "int \<Rightarrow> 'g srtConn \<Rightarrow> 'g srtConn" where
  "srtConn_sendHSRequest now c =
     (let p = control_pkt now c CTRLTYPE_USER EXTTYPE_HSREQ;
          (e, p) = pkt_MarshalCIF p (CIFHandshakeExtension_Marshal (hs_request (config c)))
      in pop_control p c)"

section \<open>The end of a connection\<close>

definition srtConn_close :: "int \<Rightarrow> 'g srtConn \<Rightarrow> 'g srtConn" where
  "srtConn_close now c =
     (if shutdownOnce c then c
      else
        let c = c\<lparr>shutdownOnce := True, peerIdleTimeout := None\<rparr>;
            c = srtConn_sendShutdown now c;
            c = c\<lparr>ctxDone := True\<rparr>
        in c\<lparr>congestion_snd := sender_Flush (congestion_snd c),
             congestion_recv := receiver_Flush (congestion_recv c), shutdownCalls := shutdownCalls c + 1\<rparr>)"

section \<open>Handlers of control packets\<close>

definition count_invalid :: "'g srtConn \<Rightarrow> 'g srtConn" where
  "count_invalid c = c\<lparr>statistics := (statistics c)\<lparr>pktRecvInvalid := pktRecvInvalid (statistics c) + 1\<rparr>\<rparr>"

definition reset_idle :: "int \<Rightarrow> 'g srtConn \<Rightarrow> 'g srtConn" where
  "reset_idle now c = c\<lparr>peerIdleTimeout := Some (now + PeerIdleTimeout (config c))\<rparr>"

definition srtConn_handleKeepAlive :: "int \<Rightarrow> pkt \<Rightarrow> 'g srtConn \<Rightarrow> 'g srtConn" where
  "srtConn_handleKeepAlive now p c =
     (let c = c\<lparr>statistics := (statistics c)\<lparr>pktRecvKeepalive := pktRecvKeepalive (statistics c) + 1,
                 pktSentKeepalive := pktSentKeepalive (statistics c) + 1\<rparr>\<rparr>
      in pop_control p (reset_idle now c))"

text \<open>\<^verbatim>\<open>go c.close()\<close> adds a goroutine that will close the connection.\<close>

definition srtConn_handleShutdown :: "'g srtConn \<Rightarrow> 'g srtConn" where
  "srtConn_handleShutdown c =
     c\<lparr>statistics := (statistics c)\<lparr>pktRecvShutdown := pktRecvShutdown (statistics c) + 1\<rparr>,
       closers := closers c + 1\<rparr>"

definition srtConn_recalculateRTT :: "int \<Rightarrow> 'g srtConn \<Rightarrow> 'g srtConn" where
  "srtConn_recalculateRTT d c = c\<lparr>conn_rtt := rtt_Recalculate d (conn_rtt c)\<rparr>"

definition zero_ACK :: CIFACK where
  "zero_ACK = \<lparr>IsLite = False, IsSmall = False, LastACKPacketSequenceNumber = \<lparr>nmax = 0, nthreshold = 0, nvalue = 0\<rparr>,
     ackRTT = 0, ackRTTVar = 0, AvailableBufferSize = 0, PacketsReceivingRate = 0, EstimatedLinkCapacity = 0,
     ReceivingRate = 0\<rparr>"

definition srtConn_handleACK :: "int \<Rightarrow> pkt \<Rightarrow> 'g srtConn \<Rightarrow> 'g srtConn option" where
  "srtConn_handleACK now p c =
     (let c = c\<lparr>statistics := (statistics c)\<lparr>pktRecvACK := pktRecvACK (statistics c) + 1\<rparr>\<rparr> in
      case pkt_UnmarshalCIF p CIFACK_Unmarshal zero_ACK of
        Inl (Err _) \<Rightarrow> Some (count_invalid c)
      | Inl Panic \<Rightarrow> None
      | Inr cif \<Rightarrow>
          (let c = c\<lparr>congestion_snd := sender_ACK (LastACKPacketSequenceNumber cif) (congestion_snd c)\<rparr> in
           if \<not> IsLite cif \<and> \<not> IsSmall cif then
             (let c = srtConn_recalculateRTT (uint (ackRTT cif) * 1000) c;
                  capacity = to_mbps (f_mul (f_of_int (uint (EstimatedLinkCapacity cif))) (f64 1456));
                  c = c\<lparr>statistics := (statistics c)\<lparr>mbpsLinkCapacity := capacity\<rparr>\<rparr>
              in Some (srtConn_sendACKACK now (TypeSpecific (header p)) c))
           else Some c))"

definition srtConn_handleNAK :: "'g cenv \<Rightarrow> int \<Rightarrow> pkt \<Rightarrow> 'g srtConn \<Rightarrow> 'g srtConn option" where
  "srtConn_handleNAK env now p c =
     (let c = c\<lparr>statistics := (statistics c)\<lparr>pktRecvNAK := pktRecvNAK (statistics c) + 1\<rparr>\<rparr> in
      case pkt_UnmarshalCIF p CIFNAK_Unmarshal \<lparr>LostPacketSequenceNumber = []\<rparr> of
        Inl (Err _) \<Rightarrow> Some (count_invalid c)
      | Inl Panic \<Rightarrow> None
      | Inr cif \<Rightarrow>
          (case sender_NAK (srtConn_pop env now) (LostPacketSequenceNumber cif) (congestion_snd c) c of
             None \<Rightarrow> None
           | Some (s, c) \<Rightarrow> Some (c\<lparr>congestion_snd := s\<rparr>)))"

definition srtConn_handleACKACK :: "int \<Rightarrow> pkt \<Rightarrow> 'g srtConn \<Rightarrow> 'g srtConn" where
  "srtConn_handleACKACK now p c =
     (let c = c\<lparr>statistics := (statistics c)\<lparr>pktRecvACKACK := pktRecvACKACK (statistics c) + 1\<rparr>\<rparr>;
          n = TypeSpecific (header p);
          c = (case ackNumbers c n of
                 Some ts \<Rightarrow> (srtConn_recalculateRTT (time_Sub now ts) c)\<lparr>ackNumbers := (ackNumbers c)(n := None)\<rparr>
               | None \<Rightarrow> count_invalid c);
          c = c\<lparr>ackNumbers := (\<lambda>i. if i < n then None else ackNumbers c i)\<rparr>
      in c\<lparr>congestion_recv := receiver_SetNAKInterval (f_to_u64 (rtt_NAKInterval (conn_rtt c))) (congestion_recv c)\<rparr>)"

text \<open>The checks of the version 4 handshake extension, in the order of the code.\<close>

definition zero_HSExt :: CIFHandshakeExtension where
  "zero_HSExt = \<lparr>SRTVersion = 0, SRTFlags = flags_of_word 0, RecvTSBPDDelay = 0, SendTSBPDDelay = 0\<rparr>"

definition version_ok :: "CIFHandshakeExtension \<Rightarrow> bool" where
  "version_ok cif \<longleftrightarrow> \<not> (SRTVersion cif < 0x010200 \<or> SRTVersion cif \<ge> 0x010300)"

definition hs4_flags_ok :: "CIFHandshakeExtensionFlags \<Rightarrow> bool" where
  "hs4_flags_ok f \<longleftrightarrow> TLPKTDROP f \<and> CRYPT f \<and> REXMITFLG f \<and> \<not> STREAM f \<and> \<not> PACKET_FILTER f"

definition srtConn_handleHSRequest :: "int \<Rightarrow> pkt \<Rightarrow> 'g srtConn \<Rightarrow> 'g srtConn option" where
  "srtConn_handleHSRequest now p c =
     (case pkt_UnmarshalCIF p CIFHandshakeExtension_Unmarshal zero_HSExt of
        Inl (Err _) \<Rightarrow> Some (count_invalid c)
      | Inl Panic \<Rightarrow> None
      | Inr cif \<Rightarrow>
          if \<not> version_ok cif then Some (srtConn_close now c)
          else if \<not> (TSBPDSND (SRTFlags cif) \<and> hs4_flags_ok (SRTFlags cif)) then Some (srtConn_close now c)
          else
            let recvTsbpdDelay = max (SendTSBPDDelay cif) (of_int (Milliseconds (ReceiverLatency (config c))));
                cif = cif\<lparr>SRTFlags := (SRTFlags cif)\<lparr>TSBPDSND := False, TSBPDRCV := True, PERIODICNAK := True\<rparr>,
                          RecvTSBPDDelay := 0, SendTSBPDDelay := recvTsbpdDelay\<rparr>;
                c = c\<lparr>tsbpdDelay := ucast recvTsbpdDelay * 1000\<rparr>;
                (e, p) = pkt_MarshalCIF p (CIFHandshakeExtension_Marshal cif);
                p = p\<lparr>header := (header p)\<lparr>SubType := EXTTYPE_HSRSP\<rparr>\<rparr>
            in Some (pop_control p c))"

text \<open>The drop threshold is computed from the delay in milliseconds.\<close>

definition srtConn_handleHSResponse :: "int \<Rightarrow> pkt \<Rightarrow> 'g srtConn \<Rightarrow> 'g srtConn option" where
  "srtConn_handleHSResponse now p c =
     (case pkt_UnmarshalCIF p CIFHandshakeExtension_Unmarshal zero_HSExt of
        Inl (Err _) \<Rightarrow> Some (count_invalid c)
      | Inl Panic \<Rightarrow> None
      | Inr cif \<Rightarrow>
          if version c \<noteq> 4 then Some c
          else if \<not> version_ok cif then Some (srtConn_close now c)
          else if \<not> (TSBPDRCV (SRTFlags cif) \<and> hs4_flags_ok (SRTFlags cif)) then Some (srtConn_close now c)
          else
            let sendTsbpdDelay = max (SendTSBPDDelay cif) (of_int (Milliseconds (PeerLatency (config c))));
                c = c\<lparr>connDropThreshold := drop_threshold (ucast sendTsbpdDelay) (config c)\<rparr>;
                c = c\<lparr>congestion_snd := sender_SetDropThreshold (connDropThreshold c) (congestion_snd c)\<rparr>
            in case stopHSRequests c of
                 NilFn \<Rightarrow> None
               | CancelFn _ \<Rightarrow> Some (c\<lparr>stopHSRequests := CancelFn True\<rparr>))"

text \<open>Key material requests: a version 4 connection without keys makes them on the first request.\<close>

definition km_accept :: "'g cenv \<Rightarrow> int \<Rightarrow> pkt \<Rightarrow> CIFKeyMaterialExtension \<Rightarrow> crypto \<Rightarrow> 'g srtConn \<Rightarrow> 'g srtConn option" where
  "km_accept env now p cif cr c =
     (if KeyBasedEncryption cif = keyBaseEncryption c then Some (count_invalid c)
      else case crypto_UnmarshalKM (aesDec env) (pbkdf2 env) cr cif (Passphrase (config c)) of
        (Some (Err _), cr) \<Rightarrow> Some (count_invalid (c\<lparr>conn_crypto := Some cr\<rparr>))
      | (Some Panic, cr) \<Rightarrow> None
      | (None, cr) \<Rightarrow>
          (let c = c\<lparr>conn_crypto := Some cr, keyBaseEncryption := PacketEncryption_Opposite (keyBaseEncryption c)\<rparr>;
               p = p\<lparr>header := (header p)\<lparr>SubType := EXTTYPE_KMRSP\<rparr>\<rparr>;
               c = c\<lparr>statistics := (statistics c)\<lparr>pktSentKM := pktSentKM (statistics c) + 1\<rparr>\<rparr>
           in Some (pop_control p c)))"

definition count_KM :: "'g srtConn \<Rightarrow> 'g srtConn" where
  "count_KM c = c\<lparr>statistics := (statistics c)\<lparr>pktRecvKM := pktRecvKM (statistics c) + 1\<rparr>\<rparr>"

definition srtConn_handleKMRequest :: "'g cenv \<Rightarrow> int \<Rightarrow> pkt \<Rightarrow> 'g srtConn \<Rightarrow> 'g srtConn option" where
  "srtConn_handleKMRequest env now p c =
     (let c = count_KM c in
      case pkt_UnmarshalCIF p CIFKeyMaterialExtension_Unmarshal zero_KM of
        Inl (Err _) \<Rightarrow> Some (count_invalid c)
      | Inl Panic \<Rightarrow> None
      | Inr cif \<Rightarrow>
          (case conn_crypto c of
             Some cr \<Rightarrow> km_accept env now p cif cr c
           | None \<Rightarrow>
               if version c = 4 then
                 (case crypto_New (randRead env) (unat (KLen cif)) (random c) of
                    (Inl _, g) \<Rightarrow> Some (srtConn_close now (c\<lparr>random := g\<rparr>))
                  | (Inr cr, g) \<Rightarrow>
                      km_accept env now p cif cr
                        (c\<lparr>random := g, keyBaseEncryption := PacketEncryption_Opposite (KeyBasedEncryption cif),
                           conn_crypto := Some cr\<rparr>))
               else Some c))"

definition srtConn_handleKMResponse :: "int \<Rightarrow> pkt \<Rightarrow> 'g srtConn \<Rightarrow> 'g srtConn option" where
  "srtConn_handleKMResponse now p c =
     (let c = count_KM c;
          confirm = (\<lambda>c. if kmPreAnnounceCountdown c \<ge> KMPreAnnounce (config c) then c else c\<lparr>kmConfirmed := True\<rparr>) in
      case pkt_UnmarshalCIF p CIFKeyMaterialExtension_Unmarshal zero_KM of
        Inl (Err _) \<Rightarrow> Some (count_invalid c)
      | Inl Panic \<Rightarrow> None
      | Inr cif \<Rightarrow>
          if conn_crypto c = None then Some c
          else if version c = 4 then
            (case stopKMRequests c of
               NilFn \<Rightarrow> None
             | CancelFn _ \<Rightarrow>
                 (let c = c\<lparr>stopKMRequests := CancelFn True\<rparr>
                  in if kmError cif \<noteq> 0 then Some (srtConn_close now c) else Some (confirm c)))
          else Some (confirm c))"

section \<open>Arriving packets\<close>

definition srtConn_handleControl :: "'g cenv \<Rightarrow> int \<Rightarrow> pkt \<Rightarrow> 'g srtConn \<Rightarrow> 'g srtConn option" where
  "srtConn_handleControl env now p c =
     (let ct = ControlType (header p); st = SubType (header p) in
      if ct = CTRLTYPE_KEEPALIVE then Some (srtConn_handleKeepAlive now p c)
      else if ct = CTRLTYPE_SHUTDOWN then Some (srtConn_handleShutdown c)
      else if ct = CTRLTYPE_NAK then srtConn_handleNAK env now p c
      else if ct = CTRLTYPE_ACK then srtConn_handleACK now p c
      else if ct = CTRLTYPE_ACKACK then Some (srtConn_handleACKACK now p c)
      else if ct = CTRLTYPE_USER then
        (if st = EXTTYPE_HSREQ then srtConn_handleHSRequest now p c
         else if st = EXTTYPE_HSRSP then srtConn_handleHSResponse now p c
         else if st = EXTTYPE_KMREQ then srtConn_handleKMRequest env now p c
         else if st = EXTTYPE_KMRSP then srtConn_handleKMResponse now p c
         else Some c)
      else Some c)"

text \<open>The time base calculation: the 32-bit time stamp of the peer wraps around about every 71 minutes.\<close>

definition tsbpd_period :: "u32 \<Rightarrow> 'g srtConn \<Rightarrow> 'g srtConn" where
  "tsbpd_period ts c =
     (if \<not> tsbpdWrapPeriod c then
        (if ts > MAX_TIMESTAMP - 30 * 1000000 then c\<lparr>tsbpdWrapPeriod := True\<rparr> else c)
      else if ts \<ge> 30 * 1000000 \<and> ts \<le> 60 * 1000000 then
        c\<lparr>tsbpdWrapPeriod := False, tsbpdTimeBaseOffset := tsbpdTimeBaseOffset c + (ucast MAX_TIMESTAMP + 1)\<rparr>
      else c)"

definition tsbpd_time :: "u32 \<Rightarrow> 'g srtConn \<Rightarrow> u64" where
  "tsbpd_time ts c =
     (let offset = tsbpdTimeBaseOffset c
            + (if tsbpdWrapPeriod c \<and> ts < 30 * 1000000 then ucast MAX_TIMESTAMP + 1 else 0)
      in tsbpdTimeBase c + offset + ucast ts + tsbpdDelay c + tsbpdDrift c)"

definition count_undecrypt :: "pkt \<Rightarrow> 'g srtConn \<Rightarrow> 'g srtConn" where
  "count_undecrypt p c =
     c\<lparr>statistics := (statistics c)\<lparr>pktRecvUndecrypt := pktRecvUndecrypt (statistics c) + 1,
         byteRecvUndecrypt := byteRecvUndecrypt (statistics c) + pkt_Len p\<rparr>\<rparr>"

definition recv_decrypt :: "'g cenv \<Rightarrow> pkt \<Rightarrow> 'g srtConn \<Rightarrow> pkt \<times> 'g srtConn" where
  "recv_decrypt env p c =
     (case conn_crypto c of
        None \<Rightarrow> (p, c)
      | Some cr \<Rightarrow>
          if KeyBaseEncryptionFlag (header p) \<noteq> 0 then
            (case crypto_EncryptOrDecryptPayload (aesEnc env) cr (pkt_Data p)
                    (KeyBaseEncryptionFlag (header p)) (Number_Val (seqno p)) of
               Inl _ \<Rightarrow> (p, count_undecrypt p c)
             | Inr d \<Rightarrow> (p\<lparr>payload := Some d\<rparr>, c))
          else (p, count_undecrypt p c))"

definition recv_push :: "'g cenv \<Rightarrow> int \<Rightarrow> pkt \<Rightarrow> 'g srtConn \<Rightarrow> 'g srtConn" where
  "recv_push env now p c =
     (let (p, c) = recv_decrypt env p c;
          (r, c) = receiver_Push (srtConn_sendNAK now) now (Some p) (congestion_recv c) c
      in c\<lparr>congestion_recv := r\<rparr>)"

definition srtConn_handleData :: "'g cenv \<Rightarrow> int \<Rightarrow> pkt \<Rightarrow> 'g srtConn \<Rightarrow> 'g srtConn" where
  "srtConn_handleData env now p c =
     (let c = c\<lparr>expectedRcvPacketSequenceNumber := Number_Inc (seqno p)\<rparr> in
      if MessageNumber (header p) = 0 then c
      else
        let c = tsbpd_period (Timestamp (header p)) c;
            p = p\<lparr>header := (header p)\<lparr>PktTsbpdTime := tsbpd_time (Timestamp (header p)) c\<rparr>\<rparr>
        in recv_push env now p c)"

definition srtConn_handlePacket :: "'g cenv \<Rightarrow> int \<Rightarrow> pkt option \<Rightarrow> 'g srtConn \<Rightarrow> 'g srtConn option" where
  "srtConn_handlePacket env now po c =
     (case po of
        None \<Rightarrow> Some c
      | Some p \<Rightarrow>
          (let c = reset_idle now c
           in if IsControlPacket (header p) then srtConn_handleControl env now p c
              else Some (srtConn_handleData env now p c)))"

section \<open>Queues\<close>

text \<open>A send that does not block on a channel with room for \<open>QUEUE_SIZE\<close> packets; \<open>None\<close> when it did not happen.\<close>

definition enqueue :: "bool \<Rightarrow> bool \<Rightarrow> pkt \<Rightarrow> pkt list \<Rightarrow> pkt list option" where
  "enqueue done sel p q =
     (if length q < QUEUE_SIZE \<and> \<not> (done \<and> sel) then Some (q @ [p]) else None)"

definition srtConn_push :: "bool \<Rightarrow> pkt \<Rightarrow> 'g srtConn \<Rightarrow> 'g srtConn" where
  "srtConn_push sel p c =
     (case enqueue (ctxDone c) sel p (networkQueue c) of None \<Rightarrow> c | Some q \<Rightarrow> c\<lparr>networkQueue := q\<rparr>)"

definition srtConn_deliver :: "bool \<Rightarrow> pkt \<Rightarrow> 'g srtConn \<Rightarrow> 'g srtConn" where
  "srtConn_deliver sel p c =
     (case enqueue (ctxDone c) sel p (readQueue c) of None \<Rightarrow> c | Some q \<Rightarrow> c\<lparr>readQueue := q\<rparr>)"

text \<open>\<^verbatim>\<open>bytes.Buffer.Read\<close> into a slice of \<open>n\<close> bytes: the bytes read, or the end of file on an empty buffer.\<close>

definition Buffer_Read :: "nat \<Rightarrow> bytes \<Rightarrow> bytes option \<times> bytes" where
  "Buffer_Read n b = (if b = [] then (if n = 0 then Some [] else None, []) else (Some (take n b), drop n b))"

datatype read_result = Blocked | EOF | Got pkt

definition srtConn_ReadPacket :: "bool \<Rightarrow> 'g srtConn \<Rightarrow> read_result \<times> 'g srtConn" where
  "srtConn_ReadPacket sel c =
     (if ctxDone c \<and> (sel \<or> readQueue c = []) then (EOF, c)
      else case readQueue c of
        [] \<Rightarrow> (Blocked, c)
      | p # q \<Rightarrow>
          (let c = c\<lparr>readQueue := q\<rparr> in
           if \<not> Number_Gt (seqno p) (expectedReadPacketSequenceNumber c)
              \<and> Number_Lt (seqno p) (expectedReadPacketSequenceNumber c) then (EOF, c)
           else (Got p, c\<lparr>expectedReadPacketSequenceNumber := Number_Inc (seqno p)\<rparr>)))"

datatype io_result = WouldBlock | IOError | IOData bytes

definition io_of :: "bytes option \<Rightarrow> io_result" where
  "io_of r = (case r of None \<Rightarrow> IOError | Some d \<Rightarrow> IOData d)"

definition srtConn_Read :: "bool \<Rightarrow> nat \<Rightarrow> 'g srtConn \<Rightarrow> io_result \<times> 'g srtConn" where
  "srtConn_Read sel n c =
     (if readBuffer c \<noteq> [] then
        (let (r, b) = Buffer_Read n (readBuffer c) in (io_of r, c\<lparr>readBuffer := b\<rparr>))
      else case srtConn_ReadPacket sel c of
        (Blocked, c) \<Rightarrow> (WouldBlock, c)
      | (EOF, c) \<Rightarrow> (IOError, c)
      | (Got p, c) \<Rightarrow>
          (let (r, b) = Buffer_Read n (pkt_Data p) in (io_of r, c\<lparr>readBuffer := b\<rparr>)))"

text \<open>
  The loop of \<open>Write\<close>. It ends, because every round adds a packet to a queue of bounded size or returns;
  \<open>sel\<close> says for each length of the queue whether the end of the context is taken.
\<close>

function write_loop :: "(nat \<Rightarrow> bool) \<Rightarrow> int \<Rightarrow> 'g srtConn \<Rightarrow> bool \<times> 'g srtConn" where
  "write_loop sel now c =
     (case Buffer_Read (writeSize c) (writeBuffer c) of
        (None, b) \<Rightarrow> (False, c\<lparr>writeBuffer := b\<rparr>)
      | (Some d, b) \<Rightarrow>
          (let c = c\<lparr>writeBuffer := b\<rparr>;
               p = (NewPacket None)\<lparr>payload := Some d\<rparr>;
               p = p\<lparr>header := (header p)\<lparr>IsControlPacket := False, PktTsbpdTime := srtConn_getTimestamp now c\<rparr>\<rparr>
           in case enqueue (ctxDone c) (sel (length (writeQueue c))) p (writeQueue c) of
                None \<Rightarrow> (False, c)
              | Some q \<Rightarrow>
                  (let c = c\<lparr>writeQueue := q\<rparr>
                   in if writeBuffer c = [] then (True, c) else write_loop sel now c)))"
  by pat_completeness auto
termination
  by (relation "measure (\<lambda>(sel, now, c). QUEUE_SIZE - length (writeQueue c))")
    (auto simp: enqueue_def split: if_splits)

definition srtConn_Write :: "(nat \<Rightarrow> bool) \<Rightarrow> int \<Rightarrow> bytes \<Rightarrow> 'g srtConn \<Rightarrow> nat option \<times> 'g srtConn" where
  "srtConn_Write sel now b c =
     (let c = c\<lparr>writeBuffer := writeBuffer c @ b\<rparr> in
      case write_loop sel now c of
        (False, c) \<Rightarrow> (None, c)
      | (True, c) \<Rightarrow> (Some (length b), c\<lparr>writeBuffer := []\<rparr>))"

definition srtConn_WritePacket :: "(nat \<Rightarrow> bool) \<Rightarrow> int \<Rightarrow> pkt \<Rightarrow> 'g srtConn \<Rightarrow> bool \<times> 'g srtConn" where
  "srtConn_WritePacket sel now p c =
     (if IsControlPacket (header p) then (True, c)
      else case srtConn_Write sel now (pkt_Data p) c of (r, c) \<Rightarrow> (r \<noteq> None, c))"

section \<open>Goroutines\<close>

text \<open>One round of the loops that \<open>newSRTConn\<close> starts. A loop that has returned does nothing.\<close>

definition srtConn_networkQueueReader :: "'g cenv \<Rightarrow> bool \<Rightarrow> int \<Rightarrow> 'g srtConn \<Rightarrow> 'g srtConn option" where
  "srtConn_networkQueueReader env sel now c =
     (if \<not> networkReader c then Some c
      else if ctxDone c \<and> (sel \<or> networkQueue c = []) then Some (c\<lparr>networkReader := False\<rparr>)
      else case networkQueue c of
        [] \<Rightarrow> Some c
      | p # q \<Rightarrow> srtConn_handlePacket env now (Some p) (c\<lparr>networkQueue := q\<rparr>))"

definition srtConn_writeQueueReader :: "bool \<Rightarrow> 'g srtConn \<Rightarrow> 'g srtConn" where
  "srtConn_writeQueueReader sel c =
     (if \<not> writeReader c then c
      else if ctxDone c \<and> (sel \<or> writeQueue c = []) then c\<lparr>writeReader := False\<rparr>
      else case writeQueue c of
        [] \<Rightarrow> c
      | p # q \<Rightarrow> c\<lparr>writeQueue := q, congestion_snd := sender_Push (congestion_snd c) (Some p)\<rparr>)"

text \<open>
  A tick runs the congestion control of both directions. The callbacks get the connection; the congestion
  control that is running is put back at the end.
\<close>

definition ticker_recv :: "(nat \<Rightarrow> bool) \<Rightarrow> int \<Rightarrow> u64 \<Rightarrow> 'g srtConn \<Rightarrow> 'g srtConn" where
  "ticker_recv sel now t c =
     (let (r, c) = receiver_Tick (srtConn_sendACK now) (srtConn_sendNAK now)
            (\<lambda>p c. srtConn_deliver (sel (length (readQueue c))) p c) t (congestion_recv c) c
      in c\<lparr>congestion_recv := r\<rparr>)"

definition ticker_snd :: "'g cenv \<Rightarrow> int \<Rightarrow> u64 \<Rightarrow> 'g srtConn \<Rightarrow> 'g srtConn" where
  "ticker_snd env now t c =
     (let (s, c) = sender_Tick (srtConn_pop env now) t (congestion_snd c) c in c\<lparr>congestion_snd := s\<rparr>)"

definition srtConn_ticker :: "'g cenv \<Rightarrow> (nat \<Rightarrow> bool) \<Rightarrow> bool \<Rightarrow> int \<Rightarrow> 'g srtConn \<Rightarrow> 'g srtConn" where
  "srtConn_ticker env sel stop now c =
     (if \<not> tickerRuns c then c
      else if ctxDone c \<and> stop then c\<lparr>tickerRuns := False\<rparr>
      else
        let tickTime = of_int (Microseconds (time_Sub now (startTime c)));
            c = ticker_recv sel now (tsbpdTimeBase c + tickTime) c
        in ticker_snd env now tickTime c)"

text \<open>The goroutines of version 4 wait once: they send one request when their ticker fires and return.\<close>

definition srtConn_sendHSRequests :: "bool \<Rightarrow> int \<Rightarrow> 'g srtConn \<Rightarrow> 'g srtConn" where
  "srtConn_sendHSRequests sel now c =
     (if \<not> hsTimer c then c
      else if stopHSRequests c = CancelFn True \<and> sel then c\<lparr>hsTimer := False\<rparr>
      else srtConn_sendHSRequest now (c\<lparr>hsTimer := False\<rparr>))"

definition srtConn_sendKMRequests :: "'g cenv \<Rightarrow> bool \<Rightarrow> int \<Rightarrow> 'g srtConn \<Rightarrow> 'g srtConn" where
  "srtConn_sendKMRequests env sel now c =
     (if \<not> kmTimer c then c
      else if stopKMRequests c = CancelFn True \<and> sel then c\<lparr>kmTimer := False\<rparr>
      else srtConn_sendKMRequest env now (keyBaseEncryption c) (c\<lparr>kmTimer := False\<rparr>))"

datatype conn_event =
    Arrives bool pkt
  | NetworkRound bool
  | WriteRound bool
  | Ticks "nat \<Rightarrow> bool" bool
  | HSTimerFires bool
  | KMTimerFires bool
  | IdleFires
  | CloserRuns
  | Writes "nat \<Rightarrow> bool" bytes
  | Reads bool nat
  | Closes

fun conn_step :: "'g cenv \<Rightarrow> 'g srtConn option \<Rightarrow> int \<times> conn_event \<Rightarrow> 'g srtConn option" where
  "conn_step env None _ = None"
| "conn_step env (Some c) (now, Arrives sel p) = Some (srtConn_push sel p c)"
| "conn_step env (Some c) (now, NetworkRound sel) = srtConn_networkQueueReader env sel now c"
| "conn_step env (Some c) (now, WriteRound sel) = Some (srtConn_writeQueueReader sel c)"
| "conn_step env (Some c) (now, Ticks sel stop) = Some (srtConn_ticker env sel stop now c)"
| "conn_step env (Some c) (now, HSTimerFires sel) = Some (srtConn_sendHSRequests sel now c)"
| "conn_step env (Some c) (now, KMTimerFires sel) = Some (srtConn_sendKMRequests env sel now c)"
| "conn_step env (Some c) (now, IdleFires) =
     Some (case peerIdleTimeout c of
             Some t \<Rightarrow> if t \<le> now then c\<lparr>peerIdleTimeout := None, closers := closers c + 1\<rparr> else c
           | None \<Rightarrow> c)"
| "conn_step env (Some c) (now, CloserRuns) =
     Some (if closers c = 0 then c else srtConn_close now (c\<lparr>closers := closers c - 1\<rparr>))"
| "conn_step env (Some c) (now, Writes sel b) = Some (snd (srtConn_Write sel now b c))"
| "conn_step env (Some c) (now, Reads sel n) = Some (snd (srtConn_Read sel n c))"
| "conn_step env (Some c) (now, Closes) = Some (srtConn_close now c)"

end
