(* ===== verification/Connection_Time.thy ===== *)
theory Connection_Time
  imports Connection
begin

text \<open>
  The delivery time of arriving packets. The time stamps on the wire have 32 bits and wrap around; the
  connection must find the time on the peer's clock, which does not wrap around.
\<close>

section \<open>Time stamps on the wire\<close>

definition wire_time :: "nat \<Rightarrow> u32" where
  "wire_time t = of_nat t"

text \<open>
  A steady stream: no packet is more than thirty seconds ahead of, or behind, the latest time seen so far.
\<close>

fun steady :: "nat \<Rightarrow> nat list \<Rightarrow> bool" where
  "steady m [] \<longleftrightarrow> True"
| "steady m (t # ts) \<longleftrightarrow> t \<le> m + 30000000 \<and> m \<le> t + 30000000 \<and> steady (max m t) ts"

text \<open>The connection is in round \<open>e\<close> of the 32-bit clock and has seen \<open>m\<close> as the latest time.\<close>

definition in_round :: "nat \<Rightarrow> nat \<Rightarrow> 'g srtConn \<Rightarrow> bool" where
  "in_round e m c \<longleftrightarrow> tsbpdTimeBaseOffset c = of_nat (e * 2 ^ 32) \<and>
     (if tsbpdWrapPeriod c
      then (e + 1) * 2 ^ 32 \<le> m + 30000000 \<and> m < (e + 1) * 2 ^ 32 + 30000000
      else m + 30000000 < (e + 1) * 2 ^ 32 \<and> (e = 0 \<or> e * 2 ^ 32 + 30000000 \<le> m))"

lemma unat_wire_time: "unat (wire_time t) = t mod 2 ^ 32"
  by (simp add: wire_time_def unat_of_nat)

text \<open>The comparisons of the code, with \<open>MAX_TIMESTAMP - 30 * 1000000\<close> evaluated, on the time within the round.\<close>

lemma wire_compare:
  "(4264967295 < wire_time t) = (2 ^ 32 \<le> t mod 2 ^ 32 + 30000000)"
  "(30000000 \<le> wire_time t) = (30000000 \<le> t mod 2 ^ 32)"
  "(wire_time t \<le> 60000000) = (t mod 2 ^ 32 \<le> 60000000)"
  "(wire_time t < 30000000) = (t mod 2 ^ 32 < 30000000)"
  using unat_wire_time [of t]
  by (auto simp: word_le_nat_alt word_less_nat_alt MAX_TIMESTAMP_def)

lemma wire_clock: "(of_nat (e * 2 ^ 32) :: u64) + ucast (wire_time t) = of_nat (e * 2 ^ 32 + t mod 2 ^ 32)"
proof -
  have "(ucast (wire_time t) :: u64) = of_nat (unat (wire_time t))" by simp
  then show ?thesis by (simp add: unat_wire_time del: of_nat_unat)
qed

lemma next_round: "(of_nat (e * 2 ^ 32) :: u64) + (ucast MAX_TIMESTAMP + 1) = of_nat ((e + 1) * 2 ^ 32)"
  by (simp add: MAX_TIMESTAMP_def)

lemma round_split:
  fixes e t :: nat
  assumes "e * 2 ^ 32 \<le> t" "t < (e + 1) * 2 ^ 32"
  shows "t mod 2 ^ 32 = t - e * 2 ^ 32" "e * 2 ^ 32 + t mod 2 ^ 32 = t"
proof -
  have "t div 2 ^ 32 = e" using assms by (auto intro!: div_nat_eqI simp: algebra_simps)
  then show "e * 2 ^ 32 + t mod 2 ^ 32 = t" using div_mult_mod_eq [of t "2 ^ 32"] by simp
  then show "t mod 2 ^ 32 = t - e * 2 ^ 32" by linarith
qed

text \<open>One arrival keeps the round and the latest time, and gives the time of the peer's clock.\<close>

definition peer_clock :: "nat \<Rightarrow> 'g srtConn \<Rightarrow> u64" where
  "peer_clock t c = tsbpdTimeBase c + of_nat t + tsbpdDelay c + tsbpdDrift c"

lemma tsbpd_period_fields [simp]:
  "tsbpdTimeBase (tsbpd_period ts c) = tsbpdTimeBase c" "tsbpdDelay (tsbpd_period ts c) = tsbpdDelay c"
  "tsbpdDrift (tsbpd_period ts c) = tsbpdDrift c"
  by (simp_all add: tsbpd_period_def)

lemma tsbpd_time_clock:
  assumes "tsbpdTimeBaseOffset c + (if tsbpdWrapPeriod c \<and> wire_time t < 30 * 1000000 then ucast MAX_TIMESTAMP + 1 else 0)
      = of_nat (e * 2 ^ 32)" and "e * 2 ^ 32 \<le> t" "t < (e + 1) * 2 ^ 32"
  shows "tsbpd_time (wire_time t) c = peer_clock t c"
  using wire_clock [of e t] assms(1) round_split [OF assms(2,3)]
  by (simp add: tsbpd_time_def peer_clock_def Let_def add.assoc)

lemma tsbpd_step_plain:
  assumes r: "in_round e m c" and w: "\<not> tsbpdWrapPeriod c" and t: "t \<le> m + 30000000" "m \<le> t + 30000000"
  shows "in_round e (max m t) (tsbpd_period (wire_time t) c)" "tsbpd_time (wire_time t) (tsbpd_period (wire_time t) c) = peer_clock t c"
proof -
  have b: "e * 2 ^ 32 \<le> t" "t < (e + 1) * 2 ^ 32" using r w t by (auto simp: in_round_def)
  note m = round_split [OF b]
  have p: "tsbpdTimeBaseOffset (tsbpd_period (wire_time t) c) = of_nat (e * 2 ^ 32)"
      "tsbpdWrapPeriod (tsbpd_period (wire_time t) c) = ((e + 1) * 2 ^ 32 \<le> t + 30000000)"
    using r w b m(1) by (auto simp: tsbpd_period_def wire_compare in_round_def)
  show "in_round e (max m t) (tsbpd_period (wire_time t) c)"
    using r w t b unfolding in_round_def p by auto
  show "tsbpd_time (wire_time t) (tsbpd_period (wire_time t) c) = peer_clock t c"
  proof -
    have "\<not> (tsbpdWrapPeriod (tsbpd_period (wire_time t) c) \<and> wire_time t < 30 * 1000000)"
      using b m(1) by (auto simp: p wire_compare)
    then show ?thesis using tsbpd_time_clock [OF _ b, of "tsbpd_period (wire_time t) c"] p(1) by (auto simp: peer_clock_def)
  qed
qed

lemma tsbpd_step_wrap:
  assumes r: "in_round e m c" and w: "tsbpdWrapPeriod c" and t: "t \<le> m + 30000000" "m \<le> t + 30000000"
  shows "\<exists>e'. in_round e' (max m t) (tsbpd_period (wire_time t) c)"
    "tsbpd_time (wire_time t) (tsbpd_period (wire_time t) c) = peer_clock t c"
proof -
  let ?c = "tsbpd_period (wire_time t) c"
  have o: "tsbpdTimeBaseOffset c = of_nat (e * 2 ^ 32)"
      and m: "(e + 1) * 2 ^ 32 \<le> m + 30000000" "m < (e + 1) * 2 ^ 32 + 30000000"
    using r w by (auto simp: in_round_def)
  have "(\<exists>e'. in_round e' (max m t) ?c) \<and> tsbpd_time (wire_time t) ?c = peer_clock t c"
  proof (cases "t < (e + 1) * 2 ^ 32")
    case True
    then have b: "e * 2 ^ 32 \<le> t" "t < (e + 1) * 2 ^ 32" using m t by auto
    have far: "60000000 < t mod 2 ^ 32" using round_split(1) [OF b] m t by auto
    then have "?c = c" using w by (simp add: tsbpd_period_def wire_compare)
    moreover have "tsbpd_time (wire_time t) c = peer_clock t c"
      using tsbpd_time_clock [OF _ b, of c] far o by (simp add: wire_compare)
    moreover have "in_round e (max m t) c" using r w m True by (auto simp: in_round_def)
    ultimately show ?thesis by auto
  next
    case False
    then have b: "(e + 1) * 2 ^ 32 \<le> t" "t < (e + 1 + 1) * 2 ^ 32" using m t by auto
    note s = round_split [OF b]
    show ?thesis
    proof (cases "30000000 \<le> t mod 2 ^ 32")
      case True
      have "t mod 2 ^ 32 \<le> 60000000" using s(1) m t by auto
      then have p: "tsbpdTimeBaseOffset ?c = of_nat ((e + 1) * 2 ^ 32)" "\<not> tsbpdWrapPeriod ?c"
        using True w o next_round [of e] by (simp_all add: tsbpd_period_def wire_compare)
      have "in_round (e + 1) (max m t) ?c" using True s(1) m t b p unfolding in_round_def by auto
      moreover have "tsbpd_time (wire_time t) ?c = peer_clock t c"
        using tsbpd_time_clock [OF _ b, of ?c] p by (simp add: peer_clock_def)
      ultimately show ?thesis by blast
    next
      case False
      then have "?c = c" using w by (simp add: tsbpd_period_def wire_compare)
      moreover have "tsbpd_time (wire_time t) c = peer_clock t c"
        using tsbpd_time_clock [OF _ b, of c] False w o next_round [of e] by (simp add: wire_compare)
      moreover have "in_round e (max m t) c" using r w m False s(1) by (auto simp: in_round_def)
      ultimately show ?thesis by auto
    qed
  qed
  then show "\<exists>e'. in_round e' (max m t) ?c" "tsbpd_time (wire_time t) ?c = peer_clock t c" by blast+
qed

section \<open>Equivalence with a clock that does not wrap around\<close>

text \<open>The reference: the packet carries its time on the peer's clock, and there is no wrapping period.\<close>

definition handleData_ref :: "'g cenv \<Rightarrow> int \<Rightarrow> nat \<Rightarrow> pkt \<Rightarrow> 'g srtConn \<Rightarrow> 'g srtConn" where
  "handleData_ref env now t p c =
     (let c = c\<lparr>expectedRcvPacketSequenceNumber := Number_Inc (seqno p)\<rparr>
      in recv_push env now (p\<lparr>header := (header p)\<lparr>PktTsbpdTime := peer_clock t c\<rparr>\<rparr>) c)"

text \<open>Arrivals: the local time, the time on the peer's clock, and the packet, whose time stamp is the peer's time.\<close>

type_synonym arrival = "int \<times> nat \<times> pkt"

definition arrival_ok :: "arrival \<Rightarrow> bool" where
  "arrival_ok a = (case a of (now, t, p) \<Rightarrow> Timestamp (header p) = wire_time t \<and> MessageNumber (header p) \<noteq> 0)"

fun handle_stream :: "'g cenv \<Rightarrow> arrival list \<Rightarrow> 'g srtConn \<Rightarrow> 'g srtConn" where
  "handle_stream env [] c = c"
| "handle_stream env ((now, t, p) # as) c = handle_stream env as (srtConn_handleData env now p c)"

fun ref_stream :: "'g cenv \<Rightarrow> arrival list \<Rightarrow> 'g srtConn \<Rightarrow> 'g srtConn" where
  "ref_stream env [] c = c"
| "ref_stream env ((now, t, p) # as) c = ref_stream env as (handleData_ref env now t p c)"

text \<open>The fields of the wrapping period are the only difference.\<close>

definition set_wrap :: "bool \<Rightarrow> u64 \<Rightarrow> 'g srtConn \<Rightarrow> 'g srtConn" where
  "set_wrap w b c = c\<lparr>tsbpdWrapPeriod := w, tsbpdTimeBaseOffset := b\<rparr>"

lemma set_wrap_recv [simp]:
  "congestion_recv (set_wrap w b c) = congestion_recv c"
  "(set_wrap w b c)\<lparr>congestion_recv := r\<rparr> = set_wrap w b (c\<lparr>congestion_recv := r\<rparr>)"
  by (simp_all add: set_wrap_def)

lemma receiver_Push_natural:
  "(\<And>l c. f l (g c) = g (f l c)) \<Longrightarrow> receiver_Push f wall po r (g c) = map_prod id g (receiver_Push f wall po r c)"
  by (simp add: receiver_Push_def Let_def split: option.split)

lemma sendNAK_set_wrap: "srtConn_sendNAK now l (set_wrap w b c) = set_wrap w b (srtConn_sendNAK now l c)"
  by (simp add: srtConn_sendNAK_def set_wrap_def control_pkt_def pop_control_def pop_address_def
      srtConn_getTimestampForPacket_def srtConn_getTimestamp_def Let_def split: prod.split)

lemma recv_push_set_wrap: "recv_push env now p (set_wrap w b c) = set_wrap w b (recv_push env now p c)"
proof -
  have dec: "recv_decrypt env p (set_wrap w b c) = map_prod id (set_wrap w b) (recv_decrypt env p c)"
    by (simp add: recv_decrypt_def set_wrap_def count_undecrypt_def split: option.split sum.split)
  obtain q d where q: "recv_decrypt env p c = (q, d)" by fastforce
  obtain r e where "receiver_Push (srtConn_sendNAK now) now (Some q) (congestion_recv d) d = (r, e)" by fastforce
  then show ?thesis
    using receiver_Push_natural [of "srtConn_sendNAK now" "set_wrap w b" now "Some q" "congestion_recv d" d, OF sendNAK_set_wrap]
    by (simp add: recv_push_def dec q)
qed

text \<open>What a callback keeps, a push keeps.\<close>

lemma receiver_Push_keeps:
  "(\<And>l c. h (f l c) = h c) \<Longrightarrow> h (snd (receiver_Push f wall po r c)) = h c"
  by (simp add: receiver_Push_def Let_def split: option.split)

definition tsbpd_fields :: "'g srtConn \<Rightarrow> u64 \<times> u64 \<times> u64 \<times> bool \<times> u64" where
  "tsbpd_fields c = (tsbpdTimeBase c, tsbpdDelay c, tsbpdDrift c, tsbpdWrapPeriod c, tsbpdTimeBaseOffset c)"

lemma in_round_fields: "tsbpd_fields c = tsbpd_fields d \<Longrightarrow> in_round e m c = in_round e m d"
  unfolding in_round_def tsbpd_fields_def prod.inject by (elim conjE) (simp only:)

lemma recv_push_tsbpd: "tsbpd_fields (recv_push env now p c) = tsbpd_fields c"
proof -
  have nak: "tsbpd_fields (srtConn_sendNAK now l c) = tsbpd_fields c" for l and c :: "'a srtConn"
    by (simp add: srtConn_sendNAK_def pop_control_def tsbpd_fields_def Let_def split: prod.split)
  obtain q d where q: "recv_decrypt env p c = (q, d)" by fastforce
  then have "tsbpd_fields d = tsbpd_fields c"
    by (auto simp: recv_decrypt_def count_undecrypt_def tsbpd_fields_def split: option.splits sum.splits if_splits)
  moreover obtain r e where e: "receiver_Push (srtConn_sendNAK now) now (Some q) (congestion_recv d) d = (r, e)"
    by fastforce
  ultimately show ?thesis
    using receiver_Push_keeps [of tsbpd_fields "srtConn_sendNAK now" now "Some q" "congestion_recv d" d, OF nak]
    by (simp add: recv_push_def q e tsbpd_fields_def)
qed

lemma handleData_ref_step:
  assumes a: "arrival_ok (now, t, p)" and r: "in_round e m c" and t: "t \<le> m + 30000000" "m \<le> t + 30000000"
  shows "(\<exists>e'. in_round e' (max m t) (srtConn_handleData env now p c))
    \<and> set_wrap w b (srtConn_handleData env now p c) = handleData_ref env now t p (set_wrap w b c)"
proof -
  let ?c = "c\<lparr>expectedRcvPacketSequenceNumber := Number_Inc (seqno p)\<rparr>"
  let ?d = "tsbpd_period (wire_time t) ?c"
  have r': "in_round e m ?c" using r in_round_fields [of ?c c] by (simp add: tsbpd_fields_def)
  obtain e' where e': "in_round e' (max m t) ?d" and now: "tsbpd_time (wire_time t) ?d = peer_clock t ?c"
    using tsbpd_step_plain [OF r' _ t] tsbpd_step_wrap [OF r' _ t] by blast
  have h: "srtConn_handleData env now p c = recv_push env now (p\<lparr>header := (header p)\<lparr>PktTsbpdTime := peer_clock t ?c\<rparr>\<rparr>) ?d"
    using a now by (simp add: srtConn_handleData_def arrival_ok_def Let_def)
  have d: "set_wrap w b ?d = (set_wrap w b c)\<lparr>expectedRcvPacketSequenceNumber := Number_Inc (seqno p)\<rparr>"
    by (simp add: set_wrap_def tsbpd_period_def)
  have clock: "peer_clock t ((set_wrap w b c)\<lparr>expectedRcvPacketSequenceNumber := Number_Inc (seqno p)\<rparr>) = peer_clock t ?c"
    by (simp add: peer_clock_def set_wrap_def)
  have "set_wrap w b (srtConn_handleData env now p c) = handleData_ref env now t p (set_wrap w b c)"
    unfolding h recv_push_set_wrap [symmetric] d handleData_ref_def Let_def clock by (rule refl)
  moreover have "in_round e' (max m t) (srtConn_handleData env now p c)"
    using e' in_round_fields [OF recv_push_tsbpd] unfolding h by blast
  ultimately show ?thesis by blast
qed

lemma handle_stream_in_round:
  "in_round e m c \<Longrightarrow> list_all arrival_ok as \<Longrightarrow> steady m (map (\<lambda>(now, t, p). t) as) \<Longrightarrow>
     set_wrap w b (handle_stream env as c) = ref_stream env as (set_wrap w b c)"
proof (induction as arbitrary: e m c)
  case (Cons a as)
  obtain now t p where a: "a = (now, t, p)" by (cases a)
  have t: "t \<le> m + 30000000" "m \<le> t + 30000000" using Cons.prems by (auto simp: a)
  obtain e' where "in_round e' (max m t) (srtConn_handleData env now p c)"
      and "set_wrap w b (srtConn_handleData env now p c) = handleData_ref env now t p (set_wrap w b c)"
    using handleData_ref_step [OF _ Cons.prems(1) t, of now p env w b] Cons.prems(2) by (auto simp: a)
  then show ?case using Cons.IH Cons.prems by (simp add: a)
qed simp

text \<open>
  C5. The handling of 32-bit time stamps is equivalent to a clock that does not wrap around, for any number of
  rounds of the 32-bit clock: a stream of data packets in which no packet is more than thirty seconds ahead of
  or behind the latest one leaves the connection, its receiver and the packets it sends in the same state as the
  reference that knows the peer's unbounded time. The only difference is in the two fields of the wrapping period.
\<close>

theorem tsbpd_clock_equivalence:
  assumes "tsbpdTimeBaseOffset c = 0" "\<not> tsbpdWrapPeriod c" "m + 30000000 < 2 ^ 32"
    and "list_all arrival_ok as" "steady m (map (\<lambda>(now, t, p). t) as)"
  shows "set_wrap w b (handle_stream env as c) = ref_stream env as (set_wrap w b c)"
  using handle_stream_in_round [of 0 m c as] assms by (simp add: in_round_def)

section \<open>A pause at the end of a round\<close>

text \<open>
  A stream that pauses at the end of a round and misses the half minute in which the wrapping period ends is
  given times that are a whole round too early.
\<close>

lemma tsbpd_pause:
  assumes "tsbpdTimeBaseOffset c = 0" "\<not> tsbpdWrapPeriod c"
  shows "tsbpd_time (wire_time (2 ^ 32 + 61000000)) (tsbpd_period (wire_time (2 ^ 32 + 61000000)) (tsbpd_period (wire_time (2 ^ 32 - 1)) c))
    = peer_clock 61000000 c"
  using assms by (simp add: tsbpd_time_def tsbpd_period_def peer_clock_def wire_time_def Let_def word_less_nat_alt word_le_nat_alt)

section \<open>A sample stream\<close>

definition sample_conn :: "crypto option \<Rightarrow> unit srtConn" where
  "sample_conn cr = the (newSRTConn 0
     \<lparr>cc_version = 5, cc_isCaller = True, cc_localAddr = Some \<lparr>Network = ''udp'', AddrString = ''127.0.0.1:6000''\<rparr>,
      cc_remoteAddr = Some \<lparr>Network = ''udp'', AddrString = ''127.0.0.1:6001''\<rparr>,
      cc_config = defaultConfig\<lparr>Passphrase := ''a secret phrase'', KMRefreshRate := 10, KMPreAnnounce := 4\<rparr>,
      cc_start = 0, cc_socketId = 1, cc_peerSocketId = 2, cc_tsbpdTimeBase = 0, cc_tsbpdDelay = 120000,
      cc_peerTsbpdDelay = 120000, cc_initialPacketSequenceNumber = num 5, cc_crypto = cr,
      cc_keyBaseEncryption = EvenKeyEncrypted\<rparr> ())"

definition sample_env :: "unit cenv" where
  "sample_env = \<lparr>aesEnc = sample_cipher, aesDec = sample_cipher, pbkdf2 = sample_kdf,
     randRead = (\<lambda>n g. (Some (replicate n 7), g))\<rparr>"

definition sample_arrival :: "nat \<Rightarrow> nat \<Rightarrow> arrival" where
  "sample_arrival k t =
     (0, t, (NewPacket None)\<lparr>header := (header (NewPacket None))\<lparr>PacketSequenceNumber := num k, Timestamp := wire_time t\<rparr>\<rparr>)"

theorem tsbpd_clock_equivalence_witness:
  "set_wrap False 0 (handle_stream sample_env [sample_arrival 5 4280000000, sample_arrival 7 4300000000, sample_arrival 6 4290000000] (sample_conn None)) =
   ref_stream sample_env [sample_arrival 5 4280000000, sample_arrival 7 4300000000, sample_arrival 6 4290000000] (set_wrap False 0 (sample_conn None))"
proof -
  have c: "tsbpdTimeBaseOffset (sample_conn None) = 0" "\<not> tsbpdWrapPeriod (sample_conn None)"
    by (simp_all add: sample_conn_def newSRTConn_def Let_def)
  have m: "(4260000000 :: nat) + 30000000 < 2 ^ 32" by simp
  have ok: "list_all arrival_ok [sample_arrival 5 4280000000, sample_arrival 7 4300000000, sample_arrival 6 4290000000]"
    by (simp add: arrival_ok_def sample_arrival_def NewPacket_def)
  have st: "steady 4260000000 (map (\<lambda>(now, t, p). t) [sample_arrival 5 4280000000, sample_arrival 7 4300000000, sample_arrival 6 4290000000])"
    by (simp add: sample_arrival_def)
  show ?thesis by (rule tsbpd_clock_equivalence [OF c m ok st])
qed

end
