(* ===== verification/Connection_Run.thy ===== *)
theory Connection_Run
  imports Connection_Time
begin

text \<open>
  What holds of a connection whatever arrives: when a packet makes it panic, how written bytes are cut into
  packets, and the invariant of all its executions.
\<close>

section \<open>Panics\<close>

lemma CIF_no_panic:
  "CIFACK_Unmarshal c d \<noteq> Inl Panic" "CIFNAK_Unmarshal n d \<noteq> Inl Panic" "CIFHandshakeExtension_Unmarshal h d \<noteq> Inl Panic"
  by (simp_all add: CIFACK_Unmarshal_def CIFNAK_Unmarshal_def CIFHandshakeExtension_Unmarshal_def Let_def)

lemma KM_no_panic: "CIFKeyMaterialExtension_Unmarshal k d \<noteq> Inl Panic"
proof -
  have "KM_Unmarshal_tail c d \<noteq> Inl Panic" for c by (simp add: KM_Unmarshal_tail_def Let_def)
  then show ?thesis by (simp add: CIFKeyMaterialExtension_Unmarshal_def Let_def)
qed

lemma UnmarshalKM_no_panic: "fst (crypto_UnmarshalKM dec kdf cr km pass) \<noteq> Some Panic"
proof -
  have "keywrap_Unwrap dec k w \<noteq> Inl Panic" if "8 \<le> length w" for k w
    using that by (simp add: keywrap_Unwrap_def Let_def split: prod.split)
  then show ?thesis
    by (auto simp: crypto_UnmarshalKM_def Let_def split: sum.splits)
qed

text \<open>
  The two calls of a nil function: a version 4 connection that did not start the requests gets a response to them.
\<close>

definition nil_stop :: "pkt \<Rightarrow> 'g srtConn \<Rightarrow> bool" where
  "nil_stop p c \<longleftrightarrow> IsControlPacket (header p) \<and> ControlType (header p) = CTRLTYPE_USER \<and> version c = 4 \<and>
     (SubType (header p) = EXTTYPE_HSRSP \<and> stopHSRequests c = NilFn
        \<and> (case CIFHandshakeExtension_Unmarshal zero_HSExt (pkt_Data p) of
             Inl _ \<Rightarrow> False | Inr cif \<Rightarrow> version_ok cif \<and> TSBPDRCV (SRTFlags cif) \<and> hs4_flags_ok (SRTFlags cif))
      \<or> SubType (header p) = EXTTYPE_KMRSP \<and> stopKMRequests c = NilFn \<and> conn_crypto c \<noteq> None
        \<and> (case CIFKeyMaterialExtension_Unmarshal zero_KM (pkt_Data p) of Inl _ \<Rightarrow> False | Inr _ \<Rightarrow> True))"

lemma Unmarshal_commissioned:
  "commissioned p \<Longrightarrow> IsControlPacket (header p) \<Longrightarrow> pkt_UnmarshalCIF p f c = f c (pkt_Data p)"
  by (auto simp: pkt_UnmarshalCIF_def commissioned_def pkt_Data_def)

lemma handlers_total:
  assumes "commissioned p" "IsControlPacket (header p)"
  shows "srtConn_handleACK now p c \<noteq> None" "srtConn_handleNAK env now p c \<noteq> None" "srtConn_handleHSRequest now p c \<noteq> None"
    "srtConn_handleKMRequest env now p c \<noteq> None"
proof -
  note u = Unmarshal_commissioned [OF assms]
  show "srtConn_handleACK now p c \<noteq> None"
    using CIF_no_panic(1) by (simp add: srtConn_handleACK_def u Let_def split: sum.split fault.split)
  show "srtConn_handleHSRequest now p c \<noteq> None"
    using CIF_no_panic(3) by (simp add: srtConn_handleHSRequest_def u Let_def split: sum.split fault.split prod.split)
  show "srtConn_handleNAK env now p c \<noteq> None"
  proof (cases "CIFNAK_Unmarshal \<lparr>LostPacketSequenceNumber = []\<rparr> (pkt_Data p)")
    case (Inl e)
    then show ?thesis using CIF_no_panic(2) by (cases e) (auto simp: srtConn_handleNAK_def u Let_def)
  next
    case (Inr cif)
    then show ?thesis
      using sender_NAK_total [OF CIFNAK_even [OF Inr]]
      by (fastforce simp: srtConn_handleNAK_def u Let_def split: option.split)
  qed
  have "km_accept env now p cif cr c \<noteq> None" for cif cr c
    using UnmarshalKM_no_panic [of "aesDec env" "pbkdf2 env" cr cif "Passphrase (config c)"]
    by (auto simp: km_accept_def Let_def split: prod.split option.split fault.split)
  then show "srtConn_handleKMRequest env now p c \<noteq> None"
    using KM_no_panic by (auto simp: srtConn_handleKMRequest_def u Let_def split: sum.split fault.split option.split prod.split)
qed

lemma handleHSResponse_None:
  assumes "commissioned p" "IsControlPacket (header p)"
  shows "srtConn_handleHSResponse now p c = None \<longleftrightarrow> version c = 4 \<and> stopHSRequests c = NilFn
    \<and> (case CIFHandshakeExtension_Unmarshal zero_HSExt (pkt_Data p) of
         Inl _ \<Rightarrow> False | Inr cif \<Rightarrow> version_ok cif \<and> TSBPDRCV (SRTFlags cif) \<and> hs4_flags_ok (SRTFlags cif))"
  using CIF_no_panic(3)
  by (auto simp: srtConn_handleHSResponse_def Unmarshal_commissioned [OF assms] Let_def
      split: sum.splits fault.splits cancel_fn.splits if_splits)

lemma handleKMResponse_None:
  assumes "commissioned p" "IsControlPacket (header p)"
  shows "srtConn_handleKMResponse now p c = None \<longleftrightarrow> version c = 4 \<and> stopKMRequests c = NilFn \<and> conn_crypto c \<noteq> None
    \<and> (case CIFKeyMaterialExtension_Unmarshal zero_KM (pkt_Data p) of Inl _ \<Rightarrow> False | Inr _ \<Rightarrow> True)"
  using KM_no_panic
  by (auto simp: srtConn_handleKMResponse_def count_KM_def Unmarshal_commissioned [OF assms] Let_def
      split: sum.splits fault.splits cancel_fn.splits if_splits)

text \<open>
  C16. A packet from the network makes the connection panic in exactly two cases, both on a version 4 connection: it
  is a valid response to a handshake extension request, or to a key material request, and the connection did not
  start these requests, so that the function to stop them is nil. No other packet, however malformed, makes a
  handler panic.
\<close>

theorem handlePacket_panics:
  assumes "commissioned p"
  shows "srtConn_handlePacket env now (Some p) c = None \<longleftrightarrow> nil_stop p c"
proof (cases "IsControlPacket (header p)")
  case True
  have r: "version (reset_idle now c) = version c" "stopHSRequests (reset_idle now c) = stopHSRequests c"
    "stopKMRequests (reset_idle now c) = stopKMRequests c" "conn_crypto (reset_idle now c) = conn_crypto c"
    by (simp_all add: reset_idle_def)
  show ?thesis
    using True
    by (simp add: srtConn_handlePacket_def srtConn_handleControl_def nil_stop_def Let_def r handlers_total [OF assms True]
        handleHSResponse_None [OF assms True] handleKMResponse_None [OF assms True])
next
  case False
  then show ?thesis by (simp add: srtConn_handlePacket_def nil_stop_def)
qed

definition user_pkt :: "CtrlSubType \<Rightarrow> bytes \<Rightarrow> pkt" where
  "user_pkt st d = (NewPacket None)\<lparr>header := (header (NewPacket None))
     \<lparr>IsControlPacket := True, ControlType := CTRLTYPE_USER, SubType := st\<rparr>, payload := Some d\<rparr>"

lemma sample_HSRSP:
  "\<exists>cif. CIFHandshakeExtension_Unmarshal zero_HSExt [0, 1, 2, 3, 0, 0, 0, 0x2E, 0, 0, 0, 120] = Inr cif
     \<and> version_ok cif \<and> TSBPDRCV (SRTFlags cif) \<and> hs4_flags_ok (SRTFlags cif)"
  by (simp add: CIFHandshakeExtension_Unmarshal_def version_ok_def hs4_flags_ok_def flags_of_word_def SRTFLAG_defs be32_def
      word_less_nat_alt word_le_nat_alt)

theorem handlePacket_panics_witness:
  "srtConn_handlePacket sample_env 0 (Some (user_pkt EXTTYPE_HSRSP [0, 1, 2, 3, 0, 0, 0, 0x2E, 0, 0, 0, 120])) ((sample_conn None)\<lparr>version := 4\<rparr>) = None
   \<and> srtConn_handlePacket sample_env 0 (Some (user_pkt EXTTYPE_KMRSP [])) ((sample_conn None)\<lparr>version := 4\<rparr>) \<noteq> None"
proof -
  have c: "stopHSRequests (sample_conn None) = NilFn" by (simp add: sample_conn_def newSRTConn_def Let_def)
  have p: "commissioned (user_pkt st d)" for st d by (simp add: commissioned_def user_pkt_def)
  have "nil_stop (user_pkt EXTTYPE_HSRSP [0, 1, 2, 3, 0, 0, 0, 0x2E, 0, 0, 0, 120]) ((sample_conn None)\<lparr>version := 4\<rparr>)"
    using sample_HSRSP c by (auto simp: nil_stop_def user_pkt_def pkt_Data_def)
  moreover have "\<not> nil_stop (user_pkt EXTTYPE_KMRSP []) ((sample_conn None)\<lparr>version := 4\<rparr>)"
    by (simp add: nil_stop_def user_pkt_def pkt_Data_def CIFKeyMaterialExtension_Unmarshal_def)
  ultimately show ?thesis using handlePacket_panics [OF p, of sample_env 0] by blast
qed

section \<open>Writing\<close>

text \<open>The payloads of the packets that carry the bytes, and such a packet.\<close>

fun chunks :: "nat \<Rightarrow> bytes \<Rightarrow> bytes list" where
  "chunks n b = (if n = 0 \<or> b = [] then [] else take n b # chunks n (drop n b))"

declare chunks.simps [simp del]

definition data_pkt :: "int \<Rightarrow> 'g srtConn \<Rightarrow> bytes \<Rightarrow> pkt" where
  "data_pkt now c d =
     (let p = (NewPacket None)\<lparr>payload := Some d\<rparr>
      in p\<lparr>header := (header p)\<lparr>IsControlPacket := False, PktTsbpdTime := srtConn_getTimestamp now c\<rparr>\<rparr>)"

lemma concat_chunks: "0 < n \<Longrightarrow> concat (chunks n b) = b"
  by (induction n b rule: chunks.induct) (subst chunks.simps, auto)

lemma chunks_lengths: "d \<in> set (chunks n b) \<Longrightarrow> 0 < length d \<and> length d \<le> n"
proof (induction n b rule: chunks.induct)
  case (1 n b)
  then show ?case by (subst (asm) (2) chunks.simps) (auto split: if_splits)
qed

lemma write_loop_data_pkt: "data_pkt now (c\<lparr>writeBuffer := x, writeQueue := q\<rparr>) = data_pkt now c"
  by (simp add: data_pkt_def srtConn_getTimestamp_def fun_eq_iff Let_def)

lemma write_loop_chunks:
  assumes "\<not> ctxDone c" "0 < writeSize c" "writeBuffer c \<noteq> []" "room = QUEUE_SIZE - length (writeQueue c)" "length (writeQueue c) \<le> QUEUE_SIZE"
    and "cs = chunks (writeSize c) (writeBuffer c)"
  shows "write_loop sel now c =
    (if length cs \<le> room then (True, c\<lparr>writeBuffer := [], writeQueue := writeQueue c @ map (data_pkt now c) cs\<rparr>)
     else (False, c\<lparr>writeBuffer := concat (drop (Suc room) cs), writeQueue := writeQueue c @ map (data_pkt now c) (take room cs)\<rparr>))"
  using assms
proof (induction "length (writeBuffer c)" arbitrary: c cs room rule: less_induct)
  case less
  let ?n = "writeSize c" and ?b = "writeBuffer c" and ?q = "writeQueue c"
  let ?p = "data_pkt now c (take ?n ?b)" and ?rest = "drop ?n ?b"
  have cs: "cs = take ?n ?b # chunks ?n ?rest" using less.prems by (subst (asm) chunks.simps) simp
  have conc: "concat (chunks ?n ?rest) = ?rest" using concat_chunks less.prems(2) by blast
  have loop: "write_loop sel now c = (if length ?q < QUEUE_SIZE then
      (if ?rest = [] then (True, c\<lparr>writeBuffer := ?rest, writeQueue := ?q @ [?p]\<rparr>)
       else write_loop sel now (c\<lparr>writeBuffer := ?rest, writeQueue := ?q @ [?p]\<rparr>)) else (False, c\<lparr>writeBuffer := ?rest\<rparr>))"
    using less.prems(1,3)
    by (subst write_loop.simps) (simp add: Buffer_Read_def enqueue_def data_pkt_def srtConn_getTimestamp_def Let_def)
  show ?case
  proof (cases "length ?q < QUEUE_SIZE")
    case False
    then have "room = 0" using less.prems(4) by simp
    then show ?thesis using loop False cs conc by simp
  next
    case True
    show ?thesis
    proof (cases "?rest = []")
      case True
      then have "chunks ?n ?rest = []" by (simp add: chunks.simps)
      then show ?thesis using loop True \<open>length ?q < QUEUE_SIZE\<close> cs less.prems(4) by simp
    next
      case False
      let ?c = "c\<lparr>writeBuffer := ?rest, writeQueue := ?q @ [?p]\<rparr>"
      have "length (writeBuffer ?c) < length ?b" using less.prems(2,3) by simp
      moreover define r where "r = QUEUE_SIZE - length (writeQueue ?c)"
      moreover have r: "room = Suc r" using True less.prems(4) by (simp add: r_def)
      ultimately have IH: "write_loop sel now ?c = (if length (chunks ?n ?rest) \<le> r
          then (True, ?c\<lparr>writeBuffer := [], writeQueue := writeQueue ?c @ map (data_pkt now ?c) (chunks ?n ?rest)\<rparr>)
          else (False, ?c\<lparr>writeBuffer := concat (drop (Suc r) (chunks ?n ?rest)), writeQueue := writeQueue ?c @ map (data_pkt now ?c) (take r (chunks ?n ?rest))\<rparr>))"
        using less.hyps [of ?c r "chunks ?n ?rest"] less.prems(1,2) False True by simp
      show ?thesis unfolding cs r using loop True False IH write_loop_data_pkt [where now = now and c = c] by simp
    qed
  qed
qed

text \<open>
  C17. \<open>Write\<close> on an open connection without left-over bytes cuts the bytes into data packets of at most the
  payload size, none of them empty, whose payloads are the written bytes in order, stamped with the time of the
  connection. When the write queue has room for all of them it reports all bytes written. Otherwise it reports an
  error; the queue is full then, the packet that found no room is lost, and the bytes behind it stay in the buffer
  and are sent with the next call. Writing nothing is an error that changes nothing.
\<close>

theorem Write_packets:
  assumes "\<not> ctxDone c" "0 < writeSize c" "writeBuffer c = []" "length (writeQueue c) \<le> QUEUE_SIZE"
    and "room = QUEUE_SIZE - length (writeQueue c)" "cs = chunks (writeSize c) b"
  shows "concat cs = b \<and> (\<forall>d \<in> set cs. 0 < length d \<and> length d \<le> writeSize c)
    \<and> srtConn_Write sel now b c =
      (if b = [] then (None, c)
       else if length cs \<le> room then (Some (length b), c\<lparr>writeQueue := writeQueue c @ map (data_pkt now c) cs\<rparr>)
       else (None, c\<lparr>writeQueue := writeQueue c @ map (data_pkt now c) (take room cs), writeBuffer := concat (drop (Suc room) cs)\<rparr>))"
proof -
  have "srtConn_Write sel now [] c = (None, c)"
    using assms(2,3) by (simp add: srtConn_Write_def write_loop.simps Buffer_Read_def)
  moreover have "srtConn_Write sel now b c =
      (if length cs \<le> room then (Some (length b), c\<lparr>writeQueue := writeQueue c @ map (data_pkt now c) cs\<rparr>)
       else (None, c\<lparr>writeQueue := writeQueue c @ map (data_pkt now c) (take room cs), writeBuffer := concat (drop (Suc room) cs)\<rparr>))"
    if "b \<noteq> []"
  proof -
    have d: "data_pkt now (c\<lparr>writeBuffer := b\<rparr>) = data_pkt now c"
      by (simp add: data_pkt_def srtConn_getTimestamp_def fun_eq_iff Let_def)
    have e: "c\<lparr>writeBuffer := []\<rparr> = c" using assms(3) by (cases c) simp
    have "(c\<lparr>writeBuffer := b\<rparr>)\<lparr>writeBuffer := [], writeQueue := q\<rparr> = c\<lparr>writeQueue := q\<rparr>" for q
      using assms(3) by (cases c) simp
    then show ?thesis
      using write_loop_chunks [of "c\<lparr>writeBuffer := b\<rparr>" room cs sel now] assms that
      by (simp add: srtConn_Write_def Let_def d e)
  qed
  ultimately show ?thesis using concat_chunks [OF assms(2), of b] chunks_lengths assms(6) by auto
qed

theorem Write_packets_witness:
  "srtConn_Write (\<lambda>_. False) 5000 [1, 2, 3] ((sample_conn None)\<lparr>writeSize := 2\<rparr>) =
     (Some 3, (sample_conn None)\<lparr>writeSize := 2, writeQueue := map (data_pkt 5000 ((sample_conn None)\<lparr>writeSize := 2\<rparr>)) [[1, 2], [3]]\<rparr>)"
proof -
  let ?c = "(sample_conn None)\<lparr>writeSize := 2\<rparr>"
  have f: "\<not> ctxDone ?c" "0 < writeSize ?c" "writeBuffer ?c = []" "writeQueue ?c = []" "length (writeQueue ?c) \<le> QUEUE_SIZE"
    by (simp_all add: sample_conn_def newSRTConn_def Let_def)
  have "chunks (writeSize ?c) [1, 2, 3] = [[1, 2], [3]]" by (simp add: chunks.simps)
  then show ?thesis using Write_packets [OF f(1,2,3,5) refl refl, of "[1, 2, 3]" "\<lambda>_. False" 5000] f(4) by (simp add: QUEUE_SIZE_def)
qed

text \<open>
  With a payload size below 188 a version 4 connection has no room for a payload: \<open>Write\<close> fills the queue with
  empty packets and reports an error.
\<close>

lemma write_loop_no_room:
  assumes "\<not> ctxDone c" "writeSize c = 0" "writeBuffer c \<noteq> []" "length (writeQueue c) \<le> QUEUE_SIZE"
  shows "write_loop sel now c = (False, c\<lparr>writeQueue := writeQueue c @ replicate (QUEUE_SIZE - length (writeQueue c)) (data_pkt now c [])\<rparr>)"
  using assms
proof (induction "QUEUE_SIZE - length (writeQueue c)" arbitrary: c)
  case 0
  then show ?case by (subst write_loop.simps) (simp add: Buffer_Read_def enqueue_def Let_def)
next
  case (Suc n)
  let ?c = "c\<lparr>writeQueue := writeQueue c @ [data_pkt now c []]\<rparr>"
  have id: "c\<lparr>writeBuffer := writeBuffer c\<rparr> = c" by simp
  have "write_loop sel now c = write_loop sel now ?c"
    using Suc.hyps(2) Suc.prems
    by (subst write_loop.simps) (simp add: Buffer_Read_def enqueue_def data_pkt_def srtConn_getTimestamp_def Let_def)
  moreover have "data_pkt now ?c [] = data_pkt now c []" by (simp add: data_pkt_def srtConn_getTimestamp_def Let_def)
  moreover have "replicate (QUEUE_SIZE - length (writeQueue c)) (data_pkt now c []) = data_pkt now c [] # replicate n (data_pkt now c [])"
    using Suc.hyps(2) by (metis replicate_Suc)
  ultimately show ?case using Suc.hyps(1) [of ?c] Suc.hyps(2) Suc.prems by simp
qed

end
