(* ===== verification/Connection_Invariant.thy ===== *)
theory Connection_Invariant
  imports Connection_Time
begin

text \<open>
  The invariant of a connection: what holds of its state after every sequence of arrivals, goroutine rounds, timers and
  calls of the user.
\<close>

text \<open>
  Version, configuration, socket ids and start never change, and what is closed stays closed. The connection is shut
  down at most once and its context ends with it; the queues stay within their size; the
  numbers of acknowledgements are never zero, so a light acknowledgement cannot be taken for a full one; salt and
  keys have their lengths.
\<close>

type_synonym conn_identity = "(u32 \<times> Config \<times> u32 \<times> u32 \<times> int) \<times> bool"

abbreviation fixed_part :: "'g srtConn \<Rightarrow> u32 \<times> Config \<times> u32 \<times> u32 \<times> int" where
  "fixed_part c \<equiv> (version c, config c, socketId c, peerSocketId c, startTime c)"

abbreviation conn_id :: "'g srtConn \<Rightarrow> conn_identity" where
  "conn_id c \<equiv> (fixed_part c, shutdownOnce c)"

definition conn_inv :: "conn_identity \<Rightarrow> 'g srtConn \<Rightarrow> bool" where
  "conn_inv fx c \<longleftrightarrow> fixed_part c = fst fx \<and> (snd fx \<longrightarrow> shutdownOnce c)
     \<and> shutdownCalls c = (if shutdownOnce c then 1 else 0) \<and> ctxDone c = shutdownOnce c
     \<and> pktSentShutdown (statistics c) = of_nat (shutdownCalls c)
     \<and> length (networkQueue c) \<le> QUEUE_SIZE \<and> length (writeQueue c) \<le> QUEUE_SIZE \<and> length (readQueue c) \<le> QUEUE_SIZE
     \<and> nmax (nextACKNumber c) = MAX_TIMESTAMP \<and> nvalue (nextACKNumber c) \<noteq> 0 \<and> ackNumbers c 0 = None
     \<and> (\<forall>cr. conn_crypto c = Some cr \<longrightarrow> wf_crypto cr)"

named_theorems conn_ops \<open>definitions of operations that do not touch the fields of the invariant\<close>

lemmas [conn_ops] = pop_control_def srtConn_sendNAK_def srtConn_sendACKACK_def srtConn_sendHSRequest_def count_invalid_def
  reset_idle_def srtConn_handleKeepAlive_def srtConn_handleShutdown_def srtConn_recalculateRTT_def count_KM_def
  count_undecrypt_def tsbpd_period_def srtConn_sendKMRequest_def

lemma inv_pop_control [simp]: "conn_inv fx (pop_control p c) = conn_inv fx c"
  by (simp add: conn_inv_def pop_control_def)

lemma inv_sends:
  "conn_inv fx c \<Longrightarrow> conn_inv fx (srtConn_sendNAK now l c)" "conn_inv fx c \<Longrightarrow> conn_inv fx (srtConn_sendACKACK now n c)"
  "conn_inv fx c \<Longrightarrow> conn_inv fx (srtConn_sendHSRequest now c)" "conn_inv fx c \<Longrightarrow> conn_inv fx (srtConn_sendKMRequest env now k c)"
  by (auto simp: conn_inv_def conn_ops Let_def split: prod.split option.split)

lemma inv_fields [simp]:
  "conn_inv fx (c\<lparr>congestion_snd := s\<rparr>) = conn_inv fx c" "conn_inv fx (c\<lparr>congestion_recv := r\<rparr>) = conn_inv fx c"
  "conn_inv fx (c\<lparr>random := g\<rparr>) = conn_inv fx c" "conn_inv fx (c\<lparr>outbox := x\<rparr>) = conn_inv fx c"
  "conn_inv fx (c\<lparr>keyBaseEncryption := k\<rparr>) = conn_inv fx c" "conn_inv fx (c\<lparr>hsTimer := h\<rparr>) = conn_inv fx c"
  "conn_inv fx (c\<lparr>kmTimer := h\<rparr>) = conn_inv fx c" "conn_inv fx (count_invalid c) = conn_inv fx c" "conn_inv fx (reset_idle now c) = conn_inv fx c"
  "conn_inv fx (count_KM c) = conn_inv fx c" "conn_inv fx (count_undecrypt p c) = conn_inv fx c" "conn_inv fx (srtConn_recalculateRTT d c) = conn_inv fx c"
  "conn_inv fx (tsbpd_period ts c) = conn_inv fx c" "conn_inv fx (c\<lparr>kmConfirmed := b\<rparr>) = conn_inv fx c"
  "conn_inv fx (c\<lparr>connDropThreshold := w\<rparr>) = conn_inv fx c" "conn_inv fx (c\<lparr>tsbpdDelay := w\<rparr>) = conn_inv fx c"
  "conn_inv fx (c\<lparr>stopHSRequests := f\<rparr>) = conn_inv fx c" "conn_inv fx (c\<lparr>stopKMRequests := f\<rparr>) = conn_inv fx c"
  "conn_inv fx (c\<lparr>kmPreAnnounceCountdown := w\<rparr>) = conn_inv fx c" "conn_inv fx (c\<lparr>expectedRcvPacketSequenceNumber := n\<rparr>) = conn_inv fx c"
  "conn_inv fx (c\<lparr>closers := m\<rparr>) = conn_inv fx c" "conn_inv fx (c\<lparr>peerIdleTimeout := t\<rparr>) = conn_inv fx c"
  by (simp_all add: conn_inv_def conn_ops)

lemma inv_crypto: "conn_inv fx c \<Longrightarrow> wf_crypto cr \<Longrightarrow> conn_inv fx (c\<lparr>conn_crypto := Some cr\<rparr>)"
  by (simp add: conn_inv_def)

lemma inv_pop:
  assumes "entropy_ok (randRead env)" "conn_inv fx c"
  shows "conn_inv fx (snd (srtConn_pop env now p c))"
proof -
  have "conn_inv fx (km_generate env cr (km_switch (km_announce env now (km_countdown c))))" if "wf_crypto cr" for cr
  proof -
    have "conn_inv fx (km_countdown c)" using assms(2) by (simp add: km_countdown_def conn_inv_def)
    then have "conn_inv fx (km_announce env now (km_countdown c))" by (simp add: km_announce_def inv_sends)
    then have "conn_inv fx (km_switch (km_announce env now (km_countdown c)))" by (auto simp: km_switch_def conn_inv_def)
    then show ?thesis
      using wf_crypto_operations [OF assms(1)] that by (auto simp: km_generate_def Let_def intro!: inv_crypto split: prod.split) (metis fst_conv snd_conv)
  qed
  moreover have "conn_crypto c = Some cr \<Longrightarrow> wf_crypto cr" for cr using assms(2) by (simp add: conn_inv_def)
  ultimately show ?thesis using assms(2) by (simp add: srtConn_pop_def Let_def split: option.split)
qed

lemma inv_sendACK: "conn_inv fx c \<Longrightarrow> conn_inv fx (srtConn_sendACK now seq lite c)"
proof -
  assume c: "conn_inv fx c"
  then have n: "nmax (nextACKNumber c) = MAX_TIMESTAMP" "Number_Val (nextACKNumber c) \<noteq> 0" by (simp_all add: conn_inv_def Number_Val_def)
  then have "nmax (next_ack (nextACKNumber c)) = MAX_TIMESTAMP \<and> nvalue (next_ack (nextACKNumber c)) \<noteq> 0"
    by (auto simp: next_ack_def Number_Inc_def Number_Val_def Let_def)
  then show ?thesis using c n by (auto simp: srtConn_sendACK_def conn_inv_def pop_control_def Let_def split: prod.split)
qed

lemma inv_close: "conn_inv fx c \<Longrightarrow> conn_inv fx (srtConn_close now c)"
  by (auto simp: srtConn_close_def srtConn_sendShutdown_def conn_inv_def pop_control_def Let_def split: prod.split)

lemma conn_crypto_count_KM [simp]: "conn_crypto (count_KM c) = conn_crypto c" "version (count_KM c) = version c" "random (count_KM c) = random c"
  by (simp_all add: count_KM_def)

section \<open>What the callbacks keep\<close>

text \<open>A predicate that every call of the callback keeps is kept by the operations of both congestion controls.\<close>

locale kept_by_callback =
  fixes deliver :: "pkt \<Rightarrow> 'c \<Rightarrow> pkt \<times> 'c" and I :: "'c \<Rightarrow> bool"
  assumes deliver_keeps: "I c \<Longrightarrow> I (snd (deliver p c))"
begin

lemma send_ripe_keeps: "I c \<Longrightarrow> I (snd (snd (snd (send_ripe deliver now ps s c))))"
proof (induction ps arbitrary: s c)
  case (Cons p ps)
  then show ?case using deliver_keeps [of c p] by (simp add: Let_def case_prod_beta)
qed simp

lemma sender_Tick_keeps: "I c \<Longrightarrow> I (snd (sender_Tick deliver now s c))"
  using send_ripe_keeps [of c now "sndPacketList s" s] by (simp add: sender_Tick_def sender_Tick_send_def Let_def case_prod_beta)

lemma nak_ranges_keeps: "I c \<Longrightarrow> nak_ranges deliver l p s c = Some (q, t, d) \<Longrightarrow> I d"
proof (induction l arbitrary: p s c rule: induct_list012)
  case (3 a b l)
  then show ?case
    using 3(1) [of c p s] 3(1) [of "snd (deliver (mark_retransmitted p) c)"] deliver_keeps [of c "mark_retransmitted p"]
    by (auto simp: Let_def case_prod_beta split: if_splits)
qed (auto split: if_splits)

lemma nak_packets_keeps: "I c \<Longrightarrow> nak_packets deliver l ps s c = Some (qs, t, d) \<Longrightarrow> I d"
proof (induction ps arbitrary: s c qs)
  case (Cons p ps)
  then show ?case using nak_ranges_keeps by (fastforce split: option.splits)
qed simp

lemma sender_NAK_keeps: "I c \<Longrightarrow> sender_NAK deliver l s c = Some (t, d) \<Longrightarrow> I d"
  using nak_packets_keeps by (fastforce simp: sender_NAK_def split: if_splits option.splits)

end

text \<open>Sending data changes neither the configuration nor the identity of the connection.\<close>

interpretation pop_fixed: kept_by_callback "srtConn_pop env now" "\<lambda>c. fixed_part c = fx"
  by unfold_locales (auto simp: srtConn_pop_def conn_ops km_countdown_def km_announce_def km_switch_def
      km_generate_def Let_def split: option.split prod.split)

lemma inv_pop_callback: "entropy_ok (randRead env) \<Longrightarrow> kept_by_callback (srtConn_pop env now) (conn_inv fx)"
  by unfold_locales (rule inv_pop)

lemma receiver_Tick_keeps:
  assumes "\<And>n l c. I c \<Longrightarrow> I (ack n l c)" "\<And>l c. I c \<Longrightarrow> I (nak l c)" "\<And>p c. I c \<Longrightarrow> I (deliver p c)"
    and "I c"
  shows "I (snd (receiver_Tick ack nak deliver now r c))"
proof -
  have f: "I (fold deliver ps c)" if "I c" for ps c using that assms(3) by (induction ps arbitrary: c) auto
  have a: "I (snd (receiver_Tick_ack ack now r c))" using assms(1,4) by (simp add: receiver_Tick_ack_def split: prod.split option.split)
  have n: "I (snd (receiver_Tick_nak nak now r c))" if "I c" for r c
    using assms(2) that by (simp add: receiver_Tick_nak_def split: prod.split)
  have d: "I (snd (receiver_Tick_deliver deliver now r c))" if "I c" for r c
    using f that by (auto simp: receiver_Tick_deliver_def Let_def split: prod.split)
  show ?thesis using d [OF n [OF a]] by (simp add: receiver_Tick_def Let_def case_prod_beta)
qed

lemma receiver_Push_holds:
  "(\<And>l c. I c \<Longrightarrow> I (nak l c)) \<Longrightarrow> I c \<Longrightarrow> I (snd (receiver_Push nak wall po r c))"
  by (simp add: receiver_Push_def Let_def split: option.split)

section \<open>Every step keeps the invariant\<close>

lemma inv_deliver: "conn_inv fx c \<Longrightarrow> conn_inv fx (srtConn_deliver sel p c)"
  by (auto simp: srtConn_deliver_def enqueue_def conn_inv_def)

lemma inv_ticker: "entropy_ok (randRead env) \<Longrightarrow> conn_inv fx c \<Longrightarrow> conn_inv fx (srtConn_ticker env sel stop now c)"
proof -
  assume e: "entropy_ok (randRead env)" and c: "conn_inv fx c"
  have r: "conn_inv fx (ticker_recv sel now t c)" for t
    using receiver_Tick_keeps [where I = "conn_inv fx", OF inv_sendACK inv_sends(1) inv_deliver c]
    by (simp add: ticker_recv_def case_prod_beta)
  have s: "conn_inv fx (ticker_snd env now t d)" if "conn_inv fx d" for t d
    using kept_by_callback.sender_Tick_keeps [OF inv_pop_callback [OF e] that] by (simp add: ticker_snd_def case_prod_beta)
  have "conn_inv fx (c\<lparr>tickerRuns := False\<rparr>)" using c by (simp add: conn_inv_def)
  with c r s show ?thesis by (simp add: srtConn_ticker_def Let_def)
qed

lemma inv_write_loop: "conn_inv fx c \<Longrightarrow> conn_inv fx (snd (write_loop sel now c))"
proof (induction sel now c rule: write_loop.induct)
  case (1 sel now c)
  have b: "conn_inv fx (c\<lparr>writeBuffer := x\<rparr>)" for x using 1(2) by (simp add: conn_inv_def)
  have q: "conn_inv fx (c\<lparr>writeBuffer := x, writeQueue := q\<rparr>)" if "enqueue d s p (writeQueue c) = Some q" for x q d s p
    using 1(2) that by (auto simp: conn_inv_def enqueue_def split: if_splits)
  show ?case
  proof (subst write_loop.simps, cases "Buffer_Read (writeSize c) (writeBuffer c)")
    case (Pair d x)
    show "conn_inv fx (snd (case Buffer_Read (writeSize c) (writeBuffer c) of (None, b) \<Rightarrow> (False, c\<lparr>writeBuffer := b\<rparr>)
      | (Some d, b) \<Rightarrow> (let c = c\<lparr>writeBuffer := b\<rparr>;
               p = (NewPacket None)\<lparr>payload := Some d\<rparr>;
               p = p\<lparr>header := (header p)\<lparr>IsControlPacket := False, PktTsbpdTime := srtConn_getTimestamp now c\<rparr>\<rparr>
           in case enqueue (ctxDone c) (sel (length (writeQueue c))) p (writeQueue c) of
                None \<Rightarrow> (False, c)
              | Some q \<Rightarrow>
                  (let c = c\<lparr>writeQueue := q\<rparr>
                   in if writeBuffer c = [] then (True, c) else write_loop sel now c))))"
      using b q 1(1) [OF Pair [symmetric] _ refl refl refl]
      by (auto simp: Pair Let_def split: option.split)
  qed
qed

lemma inv_km_accept: "conn_inv fx c \<Longrightarrow> wf_crypto cr \<Longrightarrow> km_accept env now p cif cr c = Some d \<Longrightarrow> conn_inv fx d"
proof -
  assume c: "conn_inv fx c" and w: "wf_crypto cr" and d: "km_accept env now p cif cr c = Some d"
  have u: "wf_crypto (snd (crypto_UnmarshalKM (aesDec env) (pbkdf2 env) cr cif (Passphrase (config c))))"
    using w by (rule wf_UnmarshalKM)
  have "conn_inv fx (c\<lparr>conn_crypto := Some x, keyBaseEncryption := k, statistics := (statistics c)\<lparr>pktSentKM := n\<rparr>\<rparr>)"
    if "wf_crypto x" for x k n using c that by (simp add: conn_inv_def)
  with c u d show ?thesis
    by (auto simp: km_accept_def Let_def inv_crypto split: if_splits prod.splits option.splits fault.splits)
qed

lemma inv_handleKMRequest:
  "entropy_ok (randRead env) \<Longrightarrow> conn_inv fx c \<Longrightarrow> srtConn_handleKMRequest env now p c = Some d \<Longrightarrow> conn_inv fx d"
proof -
  assume e: "entropy_ok (randRead env)" and c: "conn_inv fx c" and d: "srtConn_handleKMRequest env now p c = Some d"
  have n: "wf_crypto cr" if "crypto_New (randRead env) n g = (Inr cr, g')" for n g cr g'
    using wf_crypto_operations [OF e] that by blast
  have r: "conn_inv fx ((count_KM c)\<lparr>random := g, keyBaseEncryption := k, conn_crypto := Some cr\<rparr>)" if "wf_crypto cr" for g k cr
    using c that by (simp add: conn_inv_def count_KM_def)
  have w: "conn_crypto c = Some cr \<Longrightarrow> wf_crypto cr" for cr using c by (simp add: conn_inv_def)
  have new: "km_accept env now p cif cr ((count_KM c)\<lparr>random := g', keyBaseEncryption := k, conn_crypto := Some cr\<rparr>) = Some d
      \<Longrightarrow> crypto_New (randRead env) n g = (Inr cr, g') \<Longrightarrow> conn_inv fx d" for cif cr g g' n k
    using inv_km_accept [OF r [OF n] n] by blast
  have old: "km_accept env now p cif cr (count_KM c) = Some d \<Longrightarrow> conn_crypto c = Some cr \<Longrightarrow> conn_inv fx d" for cif cr
    by (rule inv_km_accept [of _ "count_KM c" cr]) (simp_all add: c w)
  have close: "conn_inv fx (srtConn_close now ((count_KM c)\<lparr>random := g\<rparr>))" for g using c by (simp add: inv_close)
  show ?thesis
    using c d by (auto simp: srtConn_handleKMRequest_def Let_def close dest: new old
        split: if_splits sum.splits option.splits fault.splits prod.splits)
qed

lemma inv_handleKMResponse: "conn_inv fx c \<Longrightarrow> srtConn_handleKMResponse now p c = Some d \<Longrightarrow> conn_inv fx d"
  by (auto simp: srtConn_handleKMResponse_def Let_def inv_close split: if_splits sum.splits option.splits fault.splits cancel_fn.splits)

lemma inv_handleHS:
  "conn_inv fx c \<Longrightarrow> srtConn_handleHSRequest now p c = Some d \<Longrightarrow> conn_inv fx d"
  "conn_inv fx c \<Longrightarrow> srtConn_handleHSResponse now p c = Some d \<Longrightarrow> conn_inv fx d"
  by (auto simp: srtConn_handleHSRequest_def srtConn_handleHSResponse_def Let_def inv_close
      split: if_splits sum.splits option.splits fault.splits cancel_fn.splits prod.splits)

lemma inv_handleACKACK: "conn_inv fx c \<Longrightarrow> conn_inv fx (srtConn_handleACKACK now p c)"
  by (auto simp: srtConn_handleACKACK_def Let_def conn_inv_def conn_ops split: option.split)

lemma inv_handleACK: "conn_inv fx c \<Longrightarrow> srtConn_handleACK now p c = Some d \<Longrightarrow> conn_inv fx d"
proof -
  assume c: "conn_inv fx c" and d: "srtConn_handleACK now p c = Some d"
  have s: "conn_inv fx (x\<lparr>statistics := (statistics x)\<lparr>mbpsLinkCapacity := m\<rparr>\<rparr>)" "conn_inv fx (x\<lparr>statistics := (statistics x)\<lparr>pktRecvACK := n\<rparr>\<rparr>)"
    if "conn_inv fx x" for x :: "'a srtConn" and m n using that by (simp_all add: conn_inv_def)
  show ?thesis
    using d c by (auto simp: srtConn_handleACK_def Let_def intro!: s inv_sends(2) split: if_splits sum.splits fault.splits)
qed

lemma inv_handleNAK:
  "entropy_ok (randRead env) \<Longrightarrow> conn_inv fx c \<Longrightarrow> srtConn_handleNAK env now p c = Some d \<Longrightarrow> conn_inv fx d"
proof -
  assume e: "entropy_ok (randRead env)" and c: "conn_inv fx c" and d: "srtConn_handleNAK env now p c = Some d"
  have s: "conn_inv fx (c\<lparr>statistics := (statistics c)\<lparr>pktRecvNAK := n\<rparr>\<rparr>)" for n using c by (simp add: conn_inv_def)
  show ?thesis
    using d s kept_by_callback.sender_NAK_keeps [OF inv_pop_callback [OF e] s]
    by (auto simp: srtConn_handleNAK_def Let_def split: if_splits sum.splits fault.splits option.splits)
qed

lemma inv_handleData: "conn_inv fx c \<Longrightarrow> conn_inv fx (srtConn_handleData env now p c)"
proof -
  assume c: "conn_inv fx c"
  have "conn_inv fx (snd (recv_decrypt env p c))" if "conn_inv fx c" for p and c :: "'a srtConn"
    using that by (simp add: recv_decrypt_def split: option.split sum.split)
  then have "conn_inv fx (recv_push env now p c)" if "conn_inv fx c" for p and c :: "'a srtConn"
    using that by (simp add: recv_push_def case_prod_beta receiver_Push_holds [where I = "conn_inv fx"] inv_sends(1))
  then show ?thesis using c by (simp add: srtConn_handleData_def Let_def)
qed

lemma inv_handlePacket:
  assumes "entropy_ok (randRead env)" "conn_inv fx c" "srtConn_handlePacket env now po c = Some d"
  shows "conn_inv fx d"
proof -
  have k: "conn_inv fx (srtConn_handleKeepAlive now p c)" "conn_inv fx (srtConn_handleShutdown c)" if "conn_inv fx c"
    for p and c :: "'a srtConn" using that by (simp_all add: conn_inv_def conn_ops Let_def)
  have ctl: "conn_inv fx d" if "srtConn_handleControl env now p c = Some d" "conn_inv fx c" for p c
    using that unfolding srtConn_handleControl_def Let_def
    by (auto simp only: option.inject k [OF that(2)] inv_handleACKACK [OF that(2)] split: if_split_asm
        dest: inv_handleNAK [OF assms(1) that(2)] inv_handleACK [OF that(2)] inv_handleHS [OF that(2)]
          inv_handleKMRequest [OF assms(1) that(2)] inv_handleKMResponse [OF that(2)])
  show ?thesis
    using assms(2,3) by (auto simp: srtConn_handlePacket_def Let_def inv_handleData dest: ctl split: option.splits if_splits)
qed

lemma inv_step:
  assumes "entropy_ok (randRead env)" "conn_inv fx c" "conn_step env (Some c) e = Some d"
  shows "conn_inv fx d"
proof -
  obtain now ev where e: "e = (now, ev)" by fastforce
  note c = assms(2)
  have parts: "conn_inv fx (c\<lparr>networkQueue := q\<rparr>)" if "length q \<le> QUEUE_SIZE" for q using c that by (simp add: conn_inv_def)
  show ?thesis
  proof (cases ev)
    case (Arrives sel p)
    then show ?thesis using assms(3) c by (auto simp: e srtConn_push_def enqueue_def intro!: parts split: option.splits if_splits)
  next
    case (NetworkRound sel)
    have l: "length (networkQueue c) \<le> QUEUE_SIZE" "conn_inv fx (c\<lparr>networkReader := False\<rparr>)" using c by (simp_all add: conn_inv_def)
    have "srtConn_handlePacket env now (Some p) (c\<lparr>networkQueue := q\<rparr>) = Some d \<Longrightarrow> networkQueue c = p # q \<Longrightarrow> conn_inv fx d" for p q
      by (rule inv_handlePacket [OF assms(1) parts]) (use l(1) in simp_all)
    with NetworkRound assms(3) c l show ?thesis
      by (auto simp: e srtConn_networkQueueReader_def split: if_splits list.splits)
  next
    case (WriteRound sel)
    then show ?thesis using assms(3) c by (auto simp: e srtConn_writeQueueReader_def conn_inv_def split: if_splits list.splits)
  next
    case (Ticks sel stop)
    then show ?thesis using assms(3) inv_ticker [OF assms(1) c] by (auto simp: e)
  next
    case (HSTimerFires sel)
    then show ?thesis using assms(3) c by (auto simp: e srtConn_sendHSRequests_def inv_sends(3))
  next
    case (KMTimerFires sel)
    then show ?thesis using assms(3) c by (auto simp: e srtConn_sendKMRequests_def inv_sends(4))
  next
    case IdleFires
    then show ?thesis using assms(3) c by (auto simp: e split: option.splits)
  next
    case CloserRuns
    then show ?thesis using assms(3) c by (auto simp: e inv_close)
  next
    case (Writes sel b)
    have b: "conn_inv fx (c\<lparr>writeBuffer := x\<rparr>)" if "conn_inv fx c" for x and c :: "'a srtConn" using that by (simp add: conn_inv_def)
    obtain r x where w: "write_loop sel now (c\<lparr>writeBuffer := writeBuffer c @ b\<rparr>) = (r, x)" by fastforce
    then have "conn_inv fx x" using inv_write_loop [OF b [OF c]] by (metis snd_conv)
    then show ?thesis
      using Writes assms(3) b by (cases r) (auto simp: e srtConn_Write_def Let_def w simp del: write_loop.simps)
  next
    case (Reads sel n)
    then show ?thesis
      using assms(3) c by (auto simp: e srtConn_Read_def srtConn_ReadPacket_def Let_def conn_inv_def split: if_splits list.splits prod.splits read_result.splits)
  next
    case Closes
    then show ?thesis using assms(3) c by (auto simp: e inv_close)
  qed
qed

definition conn_state_inv :: "conn_identity \<Rightarrow> 'g srtConn option \<Rightarrow> bool" where
  "conn_state_inv fx s \<longleftrightarrow> (case s of None \<Rightarrow> True | Some c \<Rightarrow> conn_inv fx c)"

lemma inv_state_step: "entropy_ok (randRead env) \<Longrightarrow> conn_state_inv fx s \<Longrightarrow> conn_state_inv fx (conn_step env s e)"
  by (cases s) (auto simp: conn_state_inv_def dest: inv_step split: option.split)

text \<open>A source of randomness of the operating system that does not fail gives the environment of the executions.\<close>

lemma conn_runs: "entropy_ok (randRead env) \<Longrightarrow> transition_system (conn_step env) (\<lambda>_ _. True) (conn_state_inv fx)"
  by unfold_locales (rule inv_state_step)

interpretation sample_runs: transition_system "conn_step sample_env" "\<lambda>_ _. True" "conn_state_inv fx"
  by (rule conn_runs) (simp add: sample_env_def entropy_ok_def)

lemma conn_inv_New: "newSRTConn now cc g = Some c \<Longrightarrow> (\<And>cr. cc_crypto cc = Some cr \<Longrightarrow> wf_crypto cr) \<Longrightarrow> conn_inv (conn_id c) c"
  by (auto simp: newSRTConn_def conn_inv_def zero_connStats_def Number_New_def Let_def QUEUE_SIZE_def MAX_TIMESTAMP_def split: option.splits)

lemma run_ok_True [simp]: "run_ok step (\<lambda>_ _. True) s es"
  by (induction es arbitrary: s) auto

text \<open>
  C6. In every execution of a connection, whatever packets arrive and however its goroutines, timers and the calls of
  the user interleave, the connection is shut down at most once: the shutdown message is sent and the owner is
  called exactly when the context has ended, and once. No queue grows beyond its size, number 0 is never a pending
  acknowledgement, and salt and keys keep their lengths. Version, configuration and socket ids never change.
\<close>

theorem conn_run_invariant:
  assumes "entropy_ok (randRead env)" "newSRTConn now cc g = Some c" "\<And>cr. cc_crypto cc = Some cr \<Longrightarrow> wf_crypto cr"
    and "run (conn_step env) (Some c) es = Some d"
  shows "shutdownCalls d = (if ctxDone d then 1 else 0) \<and> pktSentShutdown (statistics d) = of_nat (shutdownCalls d)
    \<and> length (networkQueue d) \<le> QUEUE_SIZE \<and> length (writeQueue d) \<le> QUEUE_SIZE \<and> length (readQueue d) \<le> QUEUE_SIZE
    \<and> Number_Val (nextACKNumber d) \<noteq> 0 \<and> ackNumbers d 0 = None
    \<and> (\<forall>cr. conn_crypto d = Some cr \<longrightarrow> wf_crypto cr)
    \<and> version d = version c \<and> config d = config c \<and> socketId d = socketId c \<and> peerSocketId d = peerSocketId c"
proof -
  have "conn_state_inv (conn_id c) (Some c)" using conn_inv_New [OF assms(2,3)] by (simp add: conn_state_inv_def)
  then have "conn_state_inv (conn_id c) (run (conn_step env) (Some c) es)"
    using transition_system.run_inv [OF conn_runs [OF assms(1)]] by simp
  then show ?thesis using assms(4) by (simp add: conn_state_inv_def conn_inv_def Number_Val_def)
qed

theorem conn_run_invariant_witness:
  "shutdownCalls (the (run (conn_step sample_env) (Some (sample_conn None)) [(0, Closes), (0, Closes)])) = 1"
proof -
  let ?r = "run (conn_step sample_env) (Some (sample_conn None)) [(0, Closes), (0, Closes)]"
  let ?cc = "\<lparr>cc_version = 5, cc_isCaller = True, cc_localAddr = Some \<lparr>Network = ''udp'', AddrString = ''127.0.0.1:6000''\<rparr>,
      cc_remoteAddr = Some \<lparr>Network = ''udp'', AddrString = ''127.0.0.1:6001''\<rparr>,
      cc_config = defaultConfig\<lparr>Passphrase := ''a secret phrase'', KMRefreshRate := 10, KMPreAnnounce := 4\<rparr>,
      cc_start = 0, cc_socketId = 1, cc_peerSocketId = 2, cc_tsbpdTimeBase = 0, cc_tsbpdDelay = 120000,
      cc_peerTsbpdDelay = 120000, cc_initialPacketSequenceNumber = num 5, cc_crypto = None,
      cc_keyBaseEncryption = EvenKeyEncrypted\<rparr>"
  have e: "entropy_ok (randRead sample_env)" by (simp add: sample_env_def entropy_ok_def)
  have n: "newSRTConn 0 ?cc () = Some (sample_conn None)" by (simp add: sample_conn_def newSRTConn_def Let_def)
  have r: "?r = Some (srtConn_close 0 (srtConn_close 0 (sample_conn None)))" by simp
  have "ctxDone (srtConn_close 0 (srtConn_close 0 (sample_conn None)))"
    by (simp add: srtConn_close_def Let_def sample_conn_def newSRTConn_def)
  with conn_run_invariant [OF e n _ r] r show ?thesis by simp
qed

end
