(* ===== verification/Connection_Keys.thy ===== *)
theory Connection_Keys
  imports Connection_Time
begin

text \<open>
  The refresh of the keys of a connection: when a key is generated, announced and used, over any sequence of
  sent data packets and of responses to the announcements.
\<close>

section \<open>Runs of sent packets\<close>

datatype km_event = Sends int pkt | Responds int pkt

fun km_step :: "'g cenv \<Rightarrow> 'g srtConn \<Rightarrow> km_event \<Rightarrow> 'g srtConn" where
  "km_step env c (Sends now p) = snd (srtConn_pop env now p c)"
| "km_step env c (Responds now p) = (case srtConn_handleKMResponse now p c of None \<Rightarrow> c | Some c \<Rightarrow> c)"

text \<open>Only data packets are sent, and there is no version 4 connection, which stops its requests with a response.\<close>

fun km_ok :: "'g srtConn \<Rightarrow> km_event \<Rightarrow> bool" where
  "km_ok c (Sends now p) \<longleftrightarrow> \<not> IsControlPacket (header p)"
| "km_ok c (Responds now p) \<longleftrightarrow> True"

fun sent_count :: "km_event list \<Rightarrow> nat" where
  "sent_count [] = 0"
| "sent_count (Sends now p # es) = Suc (sent_count es)"
| "sent_count (Responds now p # es) = sent_count es"

text \<open>The key of a period, and the stream encrypting key that a key names.\<close>

definition period_key :: "PacketEncryption \<Rightarrow> nat \<Rightarrow> PacketEncryption" where
  "period_key k0 j = (if even j then k0 else PacketEncryption_Opposite k0)"

definition sek_of :: "PacketEncryption \<Rightarrow> 'g srtConn \<Rightarrow> bytes" where
  "sek_of k c = (case conn_crypto c of None \<Rightarrow> [] | Some cr \<Rightarrow> if k = EvenKeyEncrypted then evenSEK cr else oddSEK cr)"

definition data_key :: "PacketEncryption \<Rightarrow> bool" where
  "data_key k \<longleftrightarrow> k = EvenKeyEncrypted \<or> k = OddKeyEncrypted"

lemma data_key_Opposite: "data_key k \<Longrightarrow> data_key (PacketEncryption_Opposite k) \<and> PacketEncryption_Opposite k \<noteq> k
    \<and> PacketEncryption_Opposite (PacketEncryption_Opposite k) = k"
  by (auto simp: data_key_def PacketEncryption_Opposite_def)

lemma period_key_Suc: "data_key k0 \<Longrightarrow> PacketEncryption_Opposite (period_key k0 j) = period_key k0 (Suc j)"
  by (simp add: period_key_def data_key_Opposite)

lemma period_key_data: "data_key k0 \<Longrightarrow> data_key (period_key k0 j)"
  by (simp add: period_key_def data_key_Opposite)

section \<open>The countdowns after \<open>n\<close> packets\<close>

text \<open>\<open>rate\<close> and \<open>pre\<close> are the refresh rate and the pre-announcement; a period is \<open>rate\<close> packets long.\<close>

definition km_config :: "nat \<Rightarrow> nat \<Rightarrow> 'g srtConn \<Rightarrow> bool" where
  "km_config rate pre c \<longleftrightarrow> unat (KMRefreshRate (config c)) = rate \<and> unat (KMPreAnnounce (config c)) = pre
     \<and> 0 < pre \<and> 2 * pre < rate \<and> conn_crypto c \<noteq> None \<and> version c \<noteq> 4"

definition km_at :: "PacketEncryption \<Rightarrow> nat \<Rightarrow> nat \<Rightarrow> nat \<Rightarrow> 'g srtConn \<Rightarrow> bool" where
  "km_at k0 rate pre n c \<longleftrightarrow> km_config rate pre c \<and> keyBaseEncryption c = period_key k0 (n div rate)
     \<and> unat (kmRefreshCountdown c) = rate - n mod rate
     \<and> (n mod rate < rate - pre \<longrightarrow> unat (kmPreAnnounceCountdown c) = rate - pre - n mod rate)"

lemma km_config_words:
  assumes "km_config rate pre c"
  shows "KMRefreshRate (config c) = of_nat rate" "KMPreAnnounce (config c) = of_nat pre"
    "unat (KMRefreshRate (config c) - KMPreAnnounce (config c)) = rate - pre" "rate < 2 ^ 64"
proof -
  show "KMRefreshRate (config c) = of_nat rate" "KMPreAnnounce (config c) = of_nat pre"
    using assms by (auto simp: km_config_def)
  show "unat (KMRefreshRate (config c) - KMPreAnnounce (config c)) = rate - pre"
    using assms by (auto simp: km_config_def unat_sub word_le_nat_alt)
  show "rate < 2 ^ 64" using assms unsigned_less [of "KMRefreshRate (config c)", where 'a = nat] by (auto simp: km_config_def)
qed

lemma unat_minus_one: "0 < unat (x :: u64) \<Longrightarrow> unat (x - 1) = unat x - 1"
  by (subst unat_sub) (auto simp: word_le_nat_alt)

lemma mod_Suc_cases:
  assumes "0 < (rate :: nat)"
  shows "(Suc (n mod rate) = rate \<and> Suc n mod rate = 0 \<and> Suc n div rate = Suc (n div rate)) \<or>
    (Suc (n mod rate) < rate \<and> Suc n mod rate = Suc (n mod rate) \<and> Suc n div rate = n div rate)"
  using assms by (auto simp: mod_Suc div_Suc) (metis Suc_lessI mod_less_divisor)

text \<open>The data branch of \<open>pop\<close> on the key fields.\<close>

definition km_next :: "'g cenv \<Rightarrow> int \<Rightarrow> 'g srtConn \<Rightarrow> 'g srtConn" where
  "km_next env now c = km_switch (km_announce env now (km_countdown c))"

lemma pop_data:
  assumes "\<not> IsControlPacket (header p)" "conn_crypto c = Some cr"
  shows "snd (srtConn_pop env now p c) =
    (let d = km_generate env cr (km_next env now c)
     in d\<lparr>outbox := outbox d @ [pop_encrypt env cr c (pop_address c p)]\<rparr>)"
  using assms by (simp add: srtConn_pop_def pop_address_def km_next_def Let_def)

lemma sendKMRequest_fields:
  "config (srtConn_sendKMRequest env now k c) = config c" "version (srtConn_sendKMRequest env now k c) = version c"
  "conn_crypto (srtConn_sendKMRequest env now k c) = conn_crypto c"
  "keyBaseEncryption (srtConn_sendKMRequest env now k c) = keyBaseEncryption c"
  "kmRefreshCountdown (srtConn_sendKMRequest env now k c) = kmRefreshCountdown c"
  "kmConfirmed (srtConn_sendKMRequest env now k c) = kmConfirmed c"
  by (simp_all add: srtConn_sendKMRequest_def pop_control_def Let_def split: option.split prod.split)

lemma km_announce_fields:
  "config (km_announce env now c) = config c" "version (km_announce env now c) = version c"
  "conn_crypto (km_announce env now c) = conn_crypto c"
  "keyBaseEncryption (km_announce env now c) = keyBaseEncryption c"
  "kmRefreshCountdown (km_announce env now c) = kmRefreshCountdown c"
  "kmPreAnnounceCountdown c \<noteq> 0 \<Longrightarrow> km_announce env now c = c"
  by (simp_all add: km_announce_def sendKMRequest_fields)

lemma km_next_fields:
  "config (km_next env now c) = config c" "version (km_next env now c) = version c"
  "conn_crypto (km_next env now c) = conn_crypto c"
  by (simp_all add: km_next_def km_switch_def km_announce_fields km_countdown_def)

lemma km_next_switch:
  "kmRefreshCountdown c - 1 = 0 \<Longrightarrow> keyBaseEncryption (km_next env now c) = PacketEncryption_Opposite (keyBaseEncryption c)
     \<and> kmRefreshCountdown (km_next env now c) = KMRefreshRate (config c)
     \<and> kmPreAnnounceCountdown (km_next env now c) = KMRefreshRate (config c) - KMPreAnnounce (config c)"
  by (simp add: km_next_def km_switch_def km_announce_fields km_countdown_def)

lemma km_next_stay:
  "kmRefreshCountdown c - 1 \<noteq> 0 \<Longrightarrow> km_next env now c = km_announce env now (km_countdown c)
     \<and> keyBaseEncryption (km_next env now c) = keyBaseEncryption c
     \<and> kmRefreshCountdown (km_next env now c) = kmRefreshCountdown c - 1"
  by (simp add: km_next_def km_switch_def km_announce_fields km_countdown_def)

lemma km_generate_fields:
  "config (km_generate env cr c) = config c" "version (km_generate env cr c) = version c"
  "keyBaseEncryption (km_generate env cr c) = keyBaseEncryption c"
  "kmRefreshCountdown (km_generate env cr c) = kmRefreshCountdown c"
  "kmPreAnnounceCountdown (km_generate env cr c) = kmPreAnnounceCountdown c"
  "outbox (km_generate env cr c) = outbox c"
  "conn_crypto c \<noteq> None \<Longrightarrow> conn_crypto (km_generate env cr c) \<noteq> None"
  by (simp_all add: km_generate_def Let_def split: prod.split)

text \<open>One packet.\<close>

lemma km_next_at:
  assumes k0: "data_key k0" and c: "km_at k0 rate pre n c"
  shows "km_at k0 rate pre (Suc n) (km_next env now c)"
proof -
  have cfg: "km_config rate pre c" and key: "keyBaseEncryption c = period_key k0 (n div rate)"
      and ref: "unat (kmRefreshCountdown c) = rate - n mod rate"
      and ann: "n mod rate < rate - pre \<Longrightarrow> unat (kmPreAnnounceCountdown c) = rate - pre - n mod rate"
    using c by (auto simp: km_at_def)
  note w = km_config_words [OF cfg]
  have pos: "0 < rate" "0 < pre" "2 * pre < rate" using cfg by (auto simp: km_config_def)
  have lt: "n mod rate < rate" using pos by simp
  have ref': "unat (kmRefreshCountdown c - 1) = rate - Suc (n mod rate)"
    using unat_minus_one [of "kmRefreshCountdown c"] ref lt by simp
  have cfg': "km_config rate pre (km_next env now c)"
    using cfg by (simp add: km_config_def km_next_fields)
  consider (switch) "Suc (n mod rate) = rate" "Suc n mod rate = 0" "Suc n div rate = Suc (n div rate)"
    | (stay) "Suc (n mod rate) < rate" "Suc n mod rate = Suc (n mod rate)" "Suc n div rate = n div rate"
    using mod_Suc_cases [OF pos(1), of n] by metis
  then show ?thesis
  proof cases
    case switch
    have "unat (kmRefreshCountdown c - 1) = 0" using ref' switch(1) by linarith
    then have "kmRefreshCountdown c - 1 = 0" by (simp only: unat_eq_zero)
    then show ?thesis
      using cfg' km_next_switch [of c env now] w(3) cfg
      unfolding km_at_def switch(2,3) key period_key_Suc [OF k0] km_config_def by simp
  next
    case stay
    have "unat (kmRefreshCountdown c - 1) \<noteq> 0" using ref' stay(1) by linarith
    then have nz: "kmRefreshCountdown c - 1 \<noteq> 0" by (simp only: unat_eq_zero not_False_eq_True)
    have "Suc n mod rate < rate - pre \<Longrightarrow>
        unat (kmPreAnnounceCountdown (km_next env now c)) = rate - pre - Suc n mod rate"
    proof -
      assume a: "Suc n mod rate < rate - pre"
      then have u: "unat (kmPreAnnounceCountdown c - 1) = rate - pre - Suc (n mod rate)"
        using ann unat_minus_one [of "kmPreAnnounceCountdown c"] stay(2) by simp
      then have "kmPreAnnounceCountdown (km_countdown c) \<noteq> 0"
        using a stay(2) by (simp add: km_countdown_def unat_eq_zero [symmetric] del: unat_eq_zero)
      then have "km_next env now c = km_countdown c"
        using km_next_stay [OF nz] km_announce_fields(6) by metis
      then show ?thesis using u stay(2) by (simp add: km_countdown_def)
    qed
    then show ?thesis
      using cfg' conjunct2 [OF km_next_stay [OF nz, of env now]] ref' unfolding km_at_def stay(2,3) key by simp
  qed
qed

lemma km_at_fields:
  assumes "km_at k0 rate pre n c" "config d = config c" "version d = version c" "conn_crypto d \<noteq> None"
    "keyBaseEncryption d = keyBaseEncryption c" "kmRefreshCountdown d = kmRefreshCountdown c"
    "kmPreAnnounceCountdown d = kmPreAnnounceCountdown c"
  shows "km_at k0 rate pre n d"
  using assms unfolding km_at_def km_config_def by simp

lemma km_at_pop:
  assumes "data_key k0" "km_at k0 rate pre n c" "\<not> IsControlPacket (header p)"
  shows "km_at k0 rate pre (Suc n) (snd (srtConn_pop env now p c))"
proof -
  obtain cr where cr: "conn_crypto c = Some cr" using assms(2) by (auto simp: km_at_def km_config_def)
  show ?thesis
    unfolding pop_data [OF assms(3) cr] Let_def
    by (rule km_at_fields [OF km_next_at [OF assms(1,2)]])
      (use cr km_generate_fields(7) [of "km_next env now c" env cr] in \<open>simp_all add: km_generate_fields km_next_fields\<close>)
qed

lemma handleKMResponse_fields:
  "version c \<noteq> 4 \<Longrightarrow> srtConn_handleKMResponse now p c = Some d \<Longrightarrow>
     config d = config c \<and> version d = version c \<and> conn_crypto d = conn_crypto c
     \<and> keyBaseEncryption d = keyBaseEncryption c \<and> kmRefreshCountdown d = kmRefreshCountdown c
     \<and> kmPreAnnounceCountdown d = kmPreAnnounceCountdown c"
  by (auto simp: srtConn_handleKMResponse_def count_KM_def count_invalid_def Let_def split: sum.splits fault.splits if_splits)

lemma km_at_response:
  assumes "km_at k0 rate pre n c"
  shows "km_at k0 rate pre n (km_step env c (Responds now p)) \<and> conn_crypto (km_step env c (Responds now p)) = conn_crypto c"
proof (cases "srtConn_handleKMResponse now p c")
  case (Some d)
  then have "version c \<noteq> 4" "conn_crypto c \<noteq> None" using assms by (auto simp: km_at_def km_config_def)
  then show ?thesis using handleKMResponse_fields [OF _ Some] km_at_fields [OF assms, of d] Some by simp
qed (use assms in simp)

lemma km_at_run:
  assumes "data_key k0"
  shows "km_at k0 rate pre n c \<Longrightarrow> run_ok (km_step env) km_ok c es \<Longrightarrow>
    km_at k0 rate pre (n + sent_count es) (run (km_step env) c es)"
proof (induction es arbitrary: n c)
  case (Cons e es)
  show ?case
  proof (cases e)
    case (Sends now p)
    then show ?thesis using Cons.IH [OF km_at_pop [OF assms Cons.prems(1)]] Cons.prems(2) by simp
  next
    case (Responds now p)
    then show ?thesis using Cons.IH [OF conjunct1 [OF km_at_response [OF Cons.prems(1)]]] Cons.prems(2) by simp
  qed
qed simp

section \<open>A key does not change between its announcement and its last use\<close>

lemma km_generate_sek:
  assumes "data_key k" "data_key (keyBaseEncryption c)" "conn_crypto c = Some cr"
    and "kmRefreshCountdown c \<noteq> KMRefreshRate (config c) - KMPreAnnounce (config c) \<or> k = keyBaseEncryption c"
  shows "sek_of k (km_generate env cr c) = sek_of k c"
  using assms
  by (auto simp: km_generate_def sek_of_def crypto_GenerateSEK_def data_key_def PacketEncryption_Opposite_def Let_def
      split: prod.splits sum.splits if_splits)

text \<open>The key of period \<open>j\<close> from packet \<open>pre\<close> of the period before it, to the end of its period.\<close>

lemma sek_pop:
  assumes k0: "data_key k0" and c: "km_at k0 rate pre n c" and p: "\<not> IsControlPacket (header p)"
    and j: "j * rate + pre \<le> n + rate" "Suc n < (j + 1) * rate"
  shows "sek_of (period_key k0 j) (snd (srtConn_pop env now p c)) = sek_of (period_key k0 j) c"
proof -
  obtain cr where cr: "conn_crypto c = Some cr" using c by (auto simp: km_at_def km_config_def)
  let ?d = "km_next env now c"
  have d: "km_at k0 rate pre (Suc n) ?d" by (rule km_next_at [OF k0 c])
  then have cfg: "km_config rate pre ?d" and key: "keyBaseEncryption ?d = period_key k0 (Suc n div rate)"
      and ref: "unat (kmRefreshCountdown ?d) = rate - Suc n mod rate" by (auto simp: km_at_def)
  have pos: "0 < rate" "0 < pre" "2 * pre < rate" using cfg by (auto simp: km_config_def)
  have "kmRefreshCountdown ?d \<noteq> KMRefreshRate (config ?d) - KMPreAnnounce (config ?d) \<or> period_key k0 j = keyBaseEncryption ?d"
  proof (cases "j * rate \<le> Suc n")
    case True
    then have "Suc n div rate = j" using j(2) pos by (auto intro!: div_nat_eqI simp: algebra_simps)
    then show ?thesis using key by simp
  next
    case False
    then obtain i where i: "j = Suc i" by (cases j) auto
    have "Suc n div rate = i" using False j(1) pos i by (auto intro!: div_nat_eqI simp: algebra_simps)
    then have "Suc n mod rate = Suc n - i * rate" using minus_div_mult_eq_mod [of "Suc n" rate] by simp
    then have "pre < Suc n mod rate" using j(1) i by (simp add: algebra_simps)
    then have "unat (kmRefreshCountdown ?d) \<noteq> rate - pre" using ref pos mod_less_divisor [OF pos(1), of "Suc n"] by linarith
    then show ?thesis using km_config_words(3) [OF cfg] by auto
  qed
  moreover have "conn_crypto ?d = Some cr" using cr by (simp add: km_next_fields)
  ultimately have "sek_of (period_key k0 j) (km_generate env cr ?d) = sek_of (period_key k0 j) ?d"
    using km_generate_sek [OF period_key_data [OF k0]] key period_key_data [OF k0] by metis
  then show ?thesis
    unfolding pop_data [OF p cr] Let_def by (simp add: sek_of_def km_next_fields)
qed

lemma sek_run:
  assumes "data_key k0"
  shows "km_at k0 rate pre n c \<Longrightarrow> run_ok (km_step env) km_ok c es \<Longrightarrow> j * rate + pre \<le> n + rate \<Longrightarrow>
    n + sent_count es < (j + 1) * rate \<Longrightarrow>
    sek_of (period_key k0 j) (run (km_step env) c es) = sek_of (period_key k0 j) c"
proof (induction es arbitrary: n c)
  case (Cons e es)
  show ?case
  proof (cases e)
    case (Sends now p)
    then show ?thesis
      using Cons.IH [OF km_at_pop [OF assms Cons.prems(1)]] sek_pop [OF assms Cons.prems(1) _ Cons.prems(3)] Cons.prems by simp
  next
    case (Responds now p)
    then show ?thesis
      using Cons.IH [OF conjunct1 [OF km_at_response [OF Cons.prems(1)]]] conjunct2 [OF km_at_response [OF Cons.prems(1)]] Cons.prems
      by (simp add: sek_of_def)
  qed
qed simp

section \<open>The announcement\<close>

text \<open>\<open>pop\<close> announces the next key when it sends a second packet beside the data packet.\<close>

definition announces :: "'g cenv \<Rightarrow> int \<Rightarrow> pkt \<Rightarrow> 'g srtConn \<Rightarrow> bool" where
  "announces env now p c \<longleftrightarrow> length (outbox (snd (srtConn_pop env now p c))) = length (outbox c) + 2"

lemma outbox_km_next:
  assumes "conn_crypto c = Some cr"
  shows "length (outbox (km_next env now c)) =
    length (outbox c) + (if kmPreAnnounceCountdown c - 1 = 0 \<and> \<not> kmConfirmed c then 1 else 0)"
  using assms
  by (simp add: km_next_def km_switch_def km_announce_def km_countdown_def srtConn_sendKMRequest_def pop_control_def Let_def
      split: prod.split)

lemma announces_iff:
  assumes "\<not> IsControlPacket (header p)" "conn_crypto c = Some cr"
  shows "announces env now p c \<longleftrightarrow> kmPreAnnounceCountdown c - 1 = 0 \<and> \<not> kmConfirmed c"
  unfolding announces_def pop_data [OF assms] Let_def
  using outbox_km_next [OF assms(2), of env now] by (simp add: km_generate_fields)

lemma announces_late:
  assumes c: "km_at k0 rate pre n c" and p: "\<not> IsControlPacket (header p)" and a: "announces env now p c"
  shows "Suc (n div rate) * rate + pre \<le> n + rate"
proof -
  have pos: "0 < rate" "2 * pre < rate" using c by (auto simp: km_at_def km_config_def)
  obtain cr where cr: "conn_crypto c = Some cr" using c by (auto simp: km_at_def km_config_def)
  have "kmPreAnnounceCountdown c = 1" using a unfolding announces_iff [OF p cr] by simp
  then have "\<not> (n mod rate < rate - pre \<and> rate - pre - n mod rate \<noteq> 1)" using c by (auto simp: km_at_def)
  then have "pre \<le> n mod rate" using pos by linarith
  then show ?thesis using div_mult_mod_eq [of n rate] unfolding mult_Suc by linarith
qed

lemma new_km_at:
  assumes "newSRTConn now cc g = Some c" "unat (KMRefreshRate (cc_config cc)) = rate" "unat (KMPreAnnounce (cc_config cc)) = pre"
    and "0 < pre" "2 * pre < rate" "cc_crypto cc \<noteq> None" "cc_version cc \<noteq> 4"
  shows "km_at (keyBaseEncryption c) rate pre 0 c"
proof -
  have f: "config c = cc_config cc" "conn_crypto c \<noteq> None" "version c \<noteq> 4" "kmRefreshCountdown c = KMRefreshRate (cc_config cc)"
      "kmPreAnnounceCountdown c = KMRefreshRate (cc_config cc) - KMPreAnnounce (cc_config cc)"
    using assms by (auto simp: newSRTConn_def Let_def split: option.splits)
  then have "km_config rate pre c" using assms by (simp add: km_config_def)
  then show ?thesis using f km_config_words(3) [of rate pre c] assms(2) by (simp add: km_at_def period_key_def)
qed

text \<open>
  C10. On a new encrypted connection whose pre-announcement is less than half the refresh rate, in every sequence
  of sent data packets and of responses to announcements: the key is switched exactly after every \<open>rate\<close>
  packets; and when a packet announces the next key, the key in the announcement is the key that encrypts every
  packet of the next period, because no key is generated anew between its announcement and its last use.
\<close>

theorem key_schedule:
  assumes "newSRTConn now cc g = Some c" "data_key (keyBaseEncryption c)"
    and "unat (KMRefreshRate (cc_config cc)) = rate" "unat (KMPreAnnounce (cc_config cc)) = pre"
    and "0 < pre" "2 * pre < rate" "cc_crypto cc \<noteq> None" "cc_version cc \<noteq> 4"
    and "run_ok (km_step env) km_ok c (es @ fs)"
    and "c1 = run (km_step env) c es" "c2 = run (km_step env) c1 fs"
    and "n = sent_count es" "m = n + sent_count fs"
  shows "keyBaseEncryption c2 = period_key (keyBaseEncryption c) (m div rate)
    \<and> unat (kmRefreshCountdown c2) = rate - m mod rate
    \<and> (\<forall>t p. \<not> IsControlPacket (header p) \<longrightarrow> announces env t p c1 \<longrightarrow> m < (n div rate + 2) * rate \<longrightarrow>
         sek_of (period_key (keyBaseEncryption c) (n div rate + 1)) c2 = sek_of (PacketEncryption_Opposite (keyBaseEncryption c1)) c1)"
proof -
  let ?k = "keyBaseEncryption c"
  have c: "km_at ?k rate pre 0 c" by (rule new_km_at [OF assms(1,3-8)])
  have ok: "run_ok (km_step env) km_ok c es" "run_ok (km_step env) km_ok c1 fs"
    using assms(9,10) by (simp_all add: run_ok_append)
  have c1: "km_at ?k rate pre n c1" using km_at_run [OF assms(2) c ok(1)] assms(10,12) by simp
  then have c2: "km_at ?k rate pre m c2" using km_at_run [OF assms(2) c1 ok(2)] assms(11,13) by simp
  have opp: "PacketEncryption_Opposite (keyBaseEncryption c1) = period_key ?k (Suc (n div rate))"
    using c1 period_key_Suc [OF assms(2)] by (simp add: km_at_def)
  have "sek_of (period_key ?k (Suc (n div rate))) c2 = sek_of (period_key ?k (Suc (n div rate))) c1"
    if "\<not> IsControlPacket (header p)" "announces env t p c1" "m < (n div rate + 2) * rate" for t p
    using sek_run [OF assms(2) c1 ok(2) announces_late [OF c1 that(1,2)]] that(3) assms(11,13) by simp
  then show ?thesis using c2 opp by (simp add: km_at_def)
qed

text \<open>A sample run: five packets, the announcement with the sixth, and the switch after the tenth.\<close>

lemma kmConfirmed_pop: "\<not> IsControlPacket (header p) \<Longrightarrow> \<not> kmConfirmed c \<Longrightarrow> \<not> kmConfirmed (snd (srtConn_pop env now p c))"
  by (auto simp: srtConn_pop_def pop_address_def km_generate_def km_switch_def km_announce_def km_countdown_def
      sendKMRequest_fields Let_def split: option.splits prod.splits)

definition sample_sends :: "km_event list" where
  "sample_sends = replicate 5 (Sends 0 (NewPacket None))"

lemma sample_sends_run:
  "run_ok (km_step env) km_ok c (replicate n (Sends 0 (NewPacket None)))
   \<and> sent_count (replicate n (Sends 0 (NewPacket None))) = n
   \<and> (\<not> kmConfirmed c \<longrightarrow> \<not> kmConfirmed (run (km_step env) c (replicate n (Sends 0 (NewPacket None)))))"
proof (induction n arbitrary: c)
  case (Suc n)
  have "\<not> IsControlPacket (header (NewPacket None))" by (simp add: NewPacket_def)
  then show ?case using Suc [of "snd (srtConn_pop env 0 (NewPacket None) c)"] kmConfirmed_pop [of "NewPacket None" c env 0] by auto
qed simp

lemmas sample_sends_facts = conjunct1 [OF sample_sends_run] conjunct1 [OF conjunct2 [OF sample_sends_run]]
  mp [OF conjunct2 [OF conjunct2 [OF sample_sends_run]]]

theorem key_schedule_witness:
  "\<exists>c1 c2. c1 = run (km_step sample_env) (sample_conn (Some (sample_crypto 7))) sample_sends
    \<and> c2 = run (km_step sample_env) c1 sample_sends \<and> announces sample_env 0 (NewPacket None) c1
    \<and> keyBaseEncryption c2 = OddKeyEncrypted \<and> sek_of OddKeyEncrypted c2 = sek_of OddKeyEncrypted c1"
proof -
  let ?c = "sample_conn (Some (sample_crypto 7))"
  let ?c1 = "run (km_step sample_env) ?c sample_sends"
  let ?c2 = "run (km_step sample_env) ?c1 sample_sends"
  define cc where "cc = \<lparr>cc_version = 5, cc_isCaller = True, cc_localAddr = Some \<lparr>Network = ''udp'', AddrString = ''127.0.0.1:6000''\<rparr>,
      cc_remoteAddr = Some \<lparr>Network = ''udp'', AddrString = ''127.0.0.1:6001''\<rparr>,
      cc_config = defaultConfig\<lparr>Passphrase := ''a secret phrase'', KMRefreshRate := 10, KMPreAnnounce := 4\<rparr>,
      cc_start = 0, cc_socketId = 1, cc_peerSocketId = 2, cc_tsbpdTimeBase = 0, cc_tsbpdDelay = 120000,
      cc_peerTsbpdDelay = 120000, cc_initialPacketSequenceNumber = num 5, cc_crypto = Some (sample_crypto 7),
      cc_keyBaseEncryption = EvenKeyEncrypted\<rparr>"
  have new: "newSRTConn 0 cc () = Some ?c" unfolding sample_conn_def cc_def by (simp add: newSRTConn_def Let_def)
  have key: "keyBaseEncryption ?c = EvenKeyEncrypted" and conf: "\<not> kmConfirmed ?c"
    by (simp_all add: sample_conn_def newSRTConn_def Let_def)
  have cfg: "unat (KMRefreshRate (cc_config cc)) = 10" "unat (KMPreAnnounce (cc_config cc)) = 4"
      "(0 :: nat) < 4" "2 * (4 :: nat) < 10" "cc_crypto cc \<noteq> None" "cc_version cc \<noteq> 4"
    by (simp_all add: cc_def)
  have dk: "data_key (keyBaseEncryption ?c)" by (simp add: key data_key_def)
  have ok: "run_ok (km_step sample_env) km_ok ?c (sample_sends @ sample_sends)"
    unfolding run_ok_append sample_sends_def by (intro conjI sample_sends_facts(1))
  have n: "sent_count sample_sends = 5" unfolding sample_sends_def by (rule sample_sends_facts(2))
  have c1: "km_at (keyBaseEncryption ?c) 10 4 5 ?c1"
    using km_at_run [OF dk new_km_at [OF new cfg], of sample_env sample_sends] ok n by (simp add: run_ok_append)
  have "unat (kmPreAnnounceCountdown ?c1) = unat (1 :: u64)" using c1 by (simp add: km_at_def)
  then have "kmPreAnnounceCountdown ?c1 = 1" by (simp only: unsigned_word_eqI)
  moreover obtain cr where "conn_crypto ?c1 = Some cr" using c1 by (auto simp: km_at_def km_config_def)
  moreover have "\<not> kmConfirmed ?c1" unfolding sample_sends_def by (rule sample_sends_facts(3) [OF conf])
  ultimately have a: "announces sample_env 0 (NewPacket None) ?c1"
    using announces_iff [of "NewPacket None" ?c1] by (simp add: NewPacket_def)
  note ks = key_schedule [OF new dk cfg ok refl refl refl refl]
  have d: "\<not> IsControlPacket (header (NewPacket None))" by (simp add: NewPacket_def)
  have k1: "keyBaseEncryption ?c1 = EvenKeyEncrypted" using c1 key by (simp add: km_at_def period_key_def)
  have "keyBaseEncryption ?c2 = OddKeyEncrypted"
    using ks key n by (simp add: period_key_def PacketEncryption_Opposite_def)
  moreover have "sek_of OddKeyEncrypted ?c2 = sek_of OddKeyEncrypted ?c1"
    using conjunct2 [OF conjunct2 [OF ks], rule_format, OF d a] n
    by (simp add: key k1 period_key_def PacketEncryption_Opposite_def)
  ultimately show ?thesis using a by blast
qed

section \<open>A pre-announcement of half the refresh rate\<close>

text \<open>
  At the bound that validation accepts, the packet that announces the next key is also the one that generates it,
  and the announcement goes out first: it carries the key that is replaced.
\<close>

definition half_rate :: "'g srtConn \<Rightarrow> bool" where
  "half_rate c \<longleftrightarrow> 0 < KMPreAnnounce (config c) \<and> unat (KMRefreshRate (config c)) = 2 * unat (KMPreAnnounce (config c))
     \<and> kmPreAnnounceCountdown c = 1 \<and> kmRefreshCountdown c = KMPreAnnounce (config c) + 1 \<and> \<not> kmConfirmed c
     \<and> data_key (keyBaseEncryption c)"

lemma half_rate_generates:
  assumes h: "half_rate c" and cr: "conn_crypto c = Some cr" and p: "\<not> IsControlPacket (header p)"
    and r: "randRead env (crKeyLength cr) (random c) = (Some s, g)"
  shows "announces env now p c \<and> sek_of (PacketEncryption_Opposite (keyBaseEncryption c)) (snd (srtConn_pop env now p c)) = s"
proof -
  let ?P = "KMPreAnnounce (config c)"
  have "KMRefreshRate (config c) = ?P + ?P"
  proof -
    have "of_nat (unat (KMRefreshRate (config c))) = (of_nat (2 * unat ?P) :: u64)" using h by (simp add: half_rate_def)
    then show ?thesis by simp
  qed
  then have rate: "KMRefreshRate (config c) - ?P = ?P" by simp
  have nz: "?P \<noteq> 0" using h by (auto simp: half_rate_def)
  have a: "announces env now p c" using h announces_iff [OF p cr] by (simp add: half_rate_def)
  let ?d = "km_next env now c"
  have d: "kmRefreshCountdown ?d = ?P" "keyBaseEncryption ?d = keyBaseEncryption c"
    using h nz km_next_stay [of c env now] by (auto simp: half_rate_def)
  have rnd: "random ?d = random c"
    by (simp add: km_next_def km_switch_def km_announce_def km_countdown_def srtConn_sendKMRequest_def pop_control_def Let_def
        split: option.split prod.split)
  have "conn_crypto (km_generate env cr ?d) =
      Some (if PacketEncryption_Opposite (keyBaseEncryption c) = EvenKeyEncrypted then cr\<lparr>evenSEK := s\<rparr> else cr\<lparr>oddSEK := s\<rparr>)"
    using d rnd rate r h
    by (auto simp: km_generate_def km_next_fields crypto_GenerateSEK_def crypto_generateSEK_def half_rate_def data_key_def
        PacketEncryption_Opposite_def PacketEncryption_IsValid_def Let_def)
  then show ?thesis using a unfolding pop_data [OF p cr] Let_def by (simp add: sek_of_def)
qed

section \<open>Encrypted packets over the wire\<close>

definition over_wire :: "go_addr option \<Rightarrow> pkt \<Rightarrow> pkt option" where
  "over_wire addr p =
     (case pkt_Marshal p (Some []) of
        Inl _ \<Rightarrow> None
      | Inr bs \<Rightarrow> (case NewPacketFromData addr bs of Inl _ \<Rightarrow> None | Inr q \<Rightarrow> Some q))"

lemma over_wire_packet:
  assumes "wf_header (header p)" "payload p = Some d"
  shows "over_wire addr p = Some \<lparr>header = received_header (header p) (header (NewPacket addr)), payload = Some d\<rparr>"
proof -
  have "length (header_bytes (header p)) = 16" by (simp add: header_bytes_def Let_def)
  then have "header_bytes (header p) @ d \<noteq> []" by (auto simp: length_0_conv [symmetric] simp del: length_0_conv)
  then show ?thesis
    using pkt_Unmarshal_header_bytes [OF assms(1), of "NewPacket addr" "[]" d] assms(2)
    by (simp add: over_wire_def pkt_Marshal_def NewPacketFromData_def Let_def NewPacket_def)
qed

text \<open>The peer has the key that this connection encrypts with.\<close>

definition shares_key :: "'g srtConn \<Rightarrow> 'g srtConn \<Rightarrow> bool" where
  "shares_key a b \<longleftrightarrow> (\<exists>cr cr'. conn_crypto a = Some cr \<and> conn_crypto b = Some cr' \<and> wf_crypto cr \<and> crSalt cr' = crSalt cr
     \<and> data_key (keyBaseEncryption a) \<and> sek_of (keyBaseEncryption a) b = sek_of (keyBaseEncryption a) a)"

lemma pop_first:
  assumes "\<not> IsControlPacket (header p)" "conn_crypto a = Some cr"
  shows "fst (srtConn_pop env now p a) = pop_encrypt env cr a (pop_address a p)"
  using assms by (simp add: srtConn_pop_def pop_address_def Let_def)

lemma recv_decrypt_peer:
  assumes s: "shares_key a b" and aes: "aes_ok (aesEnc env) dec" and cr: "conn_crypto a = Some cr"
    and e: "crypto_EncryptOrDecryptPayload (aesEnc env) cr d (keyBaseEncryption a) (Number_Val (seqno q)) = Inr x"
    and q: "payload q = Some x" "KeyBaseEncryptionFlag (header q) = keyBaseEncryption a"
  shows "recv_decrypt env q b = (q\<lparr>payload := Some d\<rparr>, b)"
proof -
  obtain cr' where cr': "conn_crypto b = Some cr'" "crSalt cr' = crSalt cr" and k: "data_key (keyBaseEncryption a)"
      and sek: "sek_of (keyBaseEncryption a) b = sek_of (keyBaseEncryption a) a"
    using s cr by (auto simp: shares_key_def)
  have "crypto_EncryptOrDecryptPayload (aesEnc env) cr' x (keyBaseEncryption a) (Number_Val (seqno q)) = Inr d"
    using payload_involution(2) [OF aes e] payload_same_key [of cr' cr "keyBaseEncryption a" "aesEnc env" x] cr cr' sek
    by (auto simp: sek_of_def split: if_splits)
  then show ?thesis using q cr'(1) k by (auto simp: recv_decrypt_def pkt_Data_def data_key_def)
qed

lemma encrypt_total:
  "wf_crypto cr \<Longrightarrow> data_key k \<Longrightarrow> \<exists>x. crypto_EncryptOrDecryptPayload enc cr d k n = Inr x"
  by (auto simp: crypto_EncryptOrDecryptPayload_def wf_crypto_def data_key_def aes_key_ok_def Let_def)

lemma pop_header:
  assumes "\<not> IsControlPacket (header p)" "conn_crypto a = Some cr" "data_key (keyBaseEncryption a)" "wf_header (header p)"
  shows "wf_header (header (fst (srtConn_pop env now p a)))" "seqno (fst (srtConn_pop env now p a)) = seqno p"
    "KeyBaseEncryptionFlag (header (fst (srtConn_pop env now p a))) = keyBaseEncryption a"
    "\<not> IsControlPacket (header (fst (srtConn_pop env now p a)))"
  using assms unfolding pop_first [OF assms(1,2)]
  by (auto simp: pop_encrypt_def pop_address_def wf_header_def data_key_def PacketEncryption_IsValid_def Let_def split: sum.split)

lemma pop_retransmitted:
  "RetransmittedPacketFlag (header p) \<Longrightarrow> payload (fst (srtConn_pop env now p a)) = payload p"
  by (simp add: srtConn_pop_def pop_encrypt_def pop_address_def Let_def split: option.split)

text \<open>
  C9. A payload that is sent encrypted is decrypted by a peer that has the key: \<open>pop\<close>, the wire format and the
  decryption of arriving packets are inverse to each other, also for a retransmission while the same key is in
  use. A retransmission after the keys were switched is not: it carries the flag of the new key over the payload
  that was encrypted with the old one.
\<close>

theorem encrypted_delivery:
  assumes "aes_ok (aesEnc env) dec" "shares_key a b" "conn_crypto a2 \<noteq> None" "data_key (keyBaseEncryption a2)"
    and "wf_header (header p)" "\<not> IsControlPacket (header p)" "\<not> RetransmittedPacketFlag (header p)" "payload p = Some d"
    and "p1 = fst (srtConn_pop env now p a)" "p2 = fst (srtConn_pop env now2 (mark_retransmitted p1) a2)"
  shows "(\<exists>q. over_wire addr p1 = Some q \<and> recv_decrypt env q b = (q\<lparr>payload := Some d\<rparr>, b))
    \<and> (keyBaseEncryption a2 = keyBaseEncryption a \<longrightarrow>
         (\<exists>q. over_wire addr p2 = Some q \<and> recv_decrypt env q b = (q\<lparr>payload := Some d\<rparr>, b)))
    \<and> (keyBaseEncryption a2 \<noteq> keyBaseEncryption a \<longrightarrow>
         payload p2 = payload p1 \<and> KeyBaseEncryptionFlag (header p2) \<noteq> KeyBaseEncryptionFlag (header p1))"
proof -
  obtain cr where cr: "conn_crypto a = Some cr" "wf_crypto cr" "data_key (keyBaseEncryption a)"
    using assms(2) by (auto simp: shares_key_def)
  obtain cr2 where cr2: "conn_crypto a2 = Some cr2" using assms(3) by auto
  obtain x where x: "crypto_EncryptOrDecryptPayload (aesEnc env) cr d (keyBaseEncryption a) (Number_Val (seqno p)) = Inr x"
    using encrypt_total [OF cr(2,3)] by blast
  note h = pop_header [OF assms(6) cr(1,3) assms(5), of env now, folded assms(9)]
  have pl: "payload p1 = Some x"
    unfolding assms(9) pop_first [OF assms(6) cr(1)]
    using x assms(7,8) by (simp add: pop_encrypt_def pop_address_def pkt_Data_def Let_def)
  let ?m = "mark_retransmitted p1"
  have m: "\<not> IsControlPacket (header ?m)" "wf_header (header ?m)" "seqno ?m = seqno p1" "payload ?m = Some x"
      "RetransmittedPacketFlag (header ?m)"
    using h pl by (auto simp: mark_retransmitted_def wf_header_def)
  note h2 = pop_header [OF m(1) cr2 assms(4) m(2), of env now2, folded assms(10)]
  have pl2: "payload p2 = Some x" using pop_retransmitted [OF m(5)] m(4) assms(10) by simp
  have "\<exists>q. over_wire addr r = Some q \<and> recv_decrypt env q b = (q\<lparr>payload := Some d\<rparr>, b)"
    if "wf_header (header r)" "\<not> IsControlPacket (header r)" "seqno r = seqno p" "payload r = Some x"
      "KeyBaseEncryptionFlag (header r) = keyBaseEncryption a" for r
    using over_wire_packet [OF that(1,4), of addr] recv_decrypt_peer [OF assms(2,1) cr(1)] x that
    by (auto simp: received_header_def)
  then show ?thesis using h h2 pl pl2 m(3) by auto
qed

theorem encrypted_delivery_witness:
  "\<exists>p1 q. p1 = fst (srtConn_pop sample_env 0 ((NewPacket None)\<lparr>payload := Some [1, 2, 3]\<rparr>) (sample_conn (Some (sample_crypto 7))))
    \<and> over_wire None p1 = Some q
    \<and> recv_decrypt sample_env q (sample_conn (Some (sample_crypto 7))) = (q\<lparr>payload := Some [1, 2, 3]\<rparr>, sample_conn (Some (sample_crypto 7)))"
proof -
  let ?c = "sample_conn (Some (sample_crypto 7))" and ?p = "(NewPacket None)\<lparr>payload := Some [1, 2, 3]\<rparr>"
  have c: "conn_crypto ?c = Some (sample_crypto 7)" "keyBaseEncryption ?c = EvenKeyEncrypted"
    by (simp_all add: sample_conn_def newSRTConn_def Let_def)
  have aes: "aes_ok (aesEnc sample_env) sample_cipher" using sample_crypto_ok(1) by (simp add: sample_env_def)
  have s: "shares_key ?c ?c" using c sample_crypto_ok(3) by (auto simp: shares_key_def data_key_def)
  have n: "conn_crypto ?c \<noteq> None" "data_key (keyBaseEncryption ?c)" using c by (auto simp: data_key_def)
  have p: "wf_header (header ?p)" "\<not> IsControlPacket (header ?p)" "\<not> RetransmittedPacketFlag (header ?p)" "payload ?p = Some [1, 2, 3]"
    by (simp_all add: wf_header_def NewPacket_def wf_New PacketPosition_IsValid_def PacketEncryption_IsValid_def)
  show ?thesis using encrypted_delivery [OF aes s n p refl refl, where addr = None and now = 0] by blast
qed

end
