(* ===== verification/Loss_Recovery.thy ===== *)
theory Loss_Recovery
  imports Connection_Keys Live_Receive_Run
begin

text \<open>
  Loss recovery between two connections: the loss report of one, over the wire, makes the other send again
  exactly what is missing.
\<close>

section \<open>Loss reports on the wire\<close>

lemma off_num: "d < half \<Longrightarrow> off (num i) (num (i + d)) = d"
  using mod_ahead [of d i] by (auto simp: off_def offn_def val_num half_def)

lemma in_window_num: "i \<le> j \<Longrightarrow> j < i + half \<Longrightarrow> in_window (num i) (num j)"
  using off_num [of "j - i" i] by (simp add: in_window_def half_def)

lemma off_num_le: "i \<le> j \<Longrightarrow> j < i + half \<Longrightarrow> off (num i) (num j) = j - i"
  using off_num [of "j - i" i] by simp

lemma range_list_simps [simp]: "range_list [] = []" "range_list ((x, y) # rs) = num x # num y # range_list rs"
  by (simp_all add: range_list_def)

lemma set_range_list: "n \<in> set (range_list rs) \<longleftrightarrow> (\<exists>(x, y) \<in> set rs. n = num x \<or> n = num y)"
  by (induction rs) auto

lemma even_range_list: "even (length (range_list rs))" "length (range_list rs) = 2 * length rs"
  by (induction rs) auto

lemma range_list_valid:
  assumes "\<forall>(x, y) \<in> set rs. b \<le> x \<and> x \<le> y \<and> y < b + half" "sorted_wrt (\<lambda>r s. Suc (snd r) < fst s) rs"
  shows "valid_loss_list (num b) (range_list rs)"
proof -
  have w: "\<forall>n \<in> set (range_list rs). in_window (num b) n"
    using assms(1) by (fastforce simp: set_range_list intro!: in_window_num)
  have "sorted_wrt (\<lambda>m n. off (num b) m \<le> off (num b) n) (range_list rs)"
    using assms
  proof (induction rs)
    case (Cons r rs)
    obtain x y where r: "r = (x, y)" by fastforce
    have "off (num b) m \<le> off (num b) n" if "n \<in> set (range_list rs)" "m = num x \<or> m = num y" for m n
    proof -
      obtain v w where vw: "(v, w) \<in> set rs" "n = num v \<or> n = num w" using \<open>n \<in> _\<close> by (auto simp: set_range_list)
      then have "y < v" "v \<le> w" "w < b + half" "b \<le> x" "x \<le> y" "y < b + half" using Cons.prems r by fastforce+
      then show ?thesis using that(2) vw(2) by (auto simp: off_num_le)
    qed
    moreover have "off (num b) (num x) \<le> off (num b) (num y)" using Cons.prems(1) r by (auto simp: off_num_le)
    ultimately show ?case using Cons r by auto
  qed simp
  then show ?thesis using w even_range_list(1) [of rs] by (simp add: valid_loss_list_def)
qed

section \<open>What a range asks for\<close>

lemma loss_ranges_range_list: "loss_ranges (range_list rs) = map (\<lambda>(x, y). (num x, num y)) rs"
  by (induction rs) auto

lemma separated_once:
  "sorted_wrt (\<lambda>r s. Suc (snd r) < fst s) rs \<Longrightarrow> \<forall>(x, y) \<in> set rs. x \<le> y \<Longrightarrow>
     length (filter (\<lambda>(x, y). x \<le> u \<and> u \<le> y) rs) = (if \<exists>(x, y) \<in> set rs. x \<le> u \<and> u \<le> y then 1 else (0 :: nat))"
proof (induction rs)
  case (Cons r rs)
  obtain x y where r: "r = (x, y)" by fastforce
  have "x \<le> u \<and> u \<le> y \<Longrightarrow> \<not> (\<exists>(v, w) \<in> set rs. v \<le> u \<and> u \<le> w)" using Cons.prems r by fastforce
  then show ?case using Cons r by auto
qed simp

lemma reported_range_list:
  assumes "seqno p = num u" "\<forall>(x, y) \<in> set rs. close u x \<and> close u y \<and> x \<le> y" "sorted_wrt (\<lambda>r s. Suc (snd r) < fst s) rs"
  shows "reported (range_list rs) p = (if \<exists>(x, y) \<in> set rs. x \<le> u \<and> u \<le> y then 1 else 0)"
proof -
  have "filter (\<lambda>(x, y). Number_Gte (num u) (num x) \<and> Number_Lte (num u) (num y)) rs = filter (\<lambda>(x, y). x \<le> u \<and> u \<le> y) rs"
    using assms(2) by (intro filter_cong) (auto simp: num_compare)
  then have "reported (range_list rs) p = length (filter (\<lambda>(x, y). x \<le> u \<and> u \<le> y) rs)"
    by (simp add: reported_def assms(1) loss_ranges_range_list filter_map comp_def case_prod_beta cong: filter_cong)
  then show ?thesis using separated_once [OF assms(3), of u] assms(2) by (simp add: case_prod_beta)
qed

section \<open>What a connection sends again\<close>

definition retransmitted :: "'g srtConn \<Rightarrow> Number list" where
  "retransmitted c = map seqno (filter (\<lambda>p. RetransmittedPacketFlag (header p)) (outbox c))"

lemma retransmitted_pop:
  assumes "RetransmittedPacketFlag (header p)"
  shows "retransmitted (snd (srtConn_pop env now p c)) = retransmitted c @ [seqno p]" "seqno (fst (srtConn_pop env now p c)) = seqno p"
proof -
  have km: "retransmitted (srtConn_sendKMRequest env now k c) = retransmitted c" for k and c :: "'a srtConn"
    by (auto simp: srtConn_sendKMRequest_def pop_control_def pop_address_def control_pkt_def retransmitted_def NewPacket_def
        pkt_MarshalCIF_def Let_def split: option.splits prod.splits sum.splits if_splits)
  have keep: "retransmitted (c\<lparr>kmPreAnnounceCountdown := w\<rparr>) = retransmitted c" for c :: "'a srtConn" and w
    by (simp add: retransmitted_def)
  have "retransmitted (km_announce env now d) = retransmitted d" for d :: "'a srtConn"
    by (simp add: km_announce_def km keep)
  then have "retransmitted (km_generate env cr (km_switch (km_announce env now (km_countdown c)))) = retransmitted c" for cr
    by (simp add: km_generate_def km_switch_def km_countdown_def retransmitted_def Let_def split: prod.split)
  then show "retransmitted (snd (srtConn_pop env now p c)) = retransmitted c @ [seqno p]" "seqno (fst (srtConn_pop env now p c)) = seqno p"
    using assms
    by (auto simp: srtConn_pop_def pop_encrypt_def pop_address_def retransmitted_def Let_def split: option.split sum.split)
qed

lemma nak_ranges_pop:
  "even (length l) \<Longrightarrow> nak_ranges (srtConn_pop env now) l p s c = Some (q, t, d) \<Longrightarrow>
     retransmitted d = retransmitted c @ replicate (reported l p) (seqno p) \<and> seqno q = seqno p"
proof (induction l arbitrary: p s c rule: induct_list012)
  case (3 a b l)
  obtain p' c' where pop: "srtConn_pop env now (mark_retransmitted p) c = (p', c')" by fastforce
  have m: "RetransmittedPacketFlag (header (mark_retransmitted p))" by (simp add: mark_retransmitted_def)
  have p': "retransmitted c' = retransmitted c @ [seqno p]" "seqno p' = seqno p"
    using retransmitted_pop [OF m, of env now c] pop by simp_all
  have r: "reported (a # b # l) p =
      (if Number_Gte (seqno p) a \<and> Number_Lte (seqno p) b then Suc (reported l p) else reported l p)"
    by (simp add: reported_def)
  have "reported l p' = reported l p" using p'(2) by (simp add: reported_def)
  then show ?case
    using 3(1) [of p s c] 3(1) [of p' "count_retrans s p" c'] 3(3,4) p' pop
    by (auto simp: r Let_def split: if_splits)
qed (auto simp: reported_def)

lemma nak_packets_pop:
  "even (length l) \<Longrightarrow> nak_packets (srtConn_pop env now) l ps s c = Some (qs, t, d) \<Longrightarrow>
     retransmitted d = retransmitted c @ concat (map (\<lambda>p. replicate (reported l p) (seqno p)) ps)"
proof (induction ps arbitrary: s c qs)
  case (Cons p ps)
  then show ?case by (auto split: option.splits dest!: nak_ranges_pop [OF Cons.prems(1)])
qed simp

lemma handleNAK_retransmits:
  assumes "pkt_UnmarshalCIF p CIFNAK_Unmarshal \<lparr>LostPacketSequenceNumber = []\<rparr> = Inr cif" "even (length (LostPacketSequenceNumber cif))"
  shows "\<exists>d. srtConn_handleNAK env now p c = Some d \<and> retransmitted d = retransmitted c
    @ concat (map (\<lambda>q. replicate (reported (LostPacketSequenceNumber cif) q) (seqno q)) (rev (lossList (congestion_snd c))))"
proof -
  let ?c = "c\<lparr>statistics := (statistics c)\<lparr>pktRecvNAK := pktRecvNAK (statistics c) + 1\<rparr>\<rparr>" and ?l = "LostPacketSequenceNumber cif"
  obtain s d where s: "sender_NAK (srtConn_pop env now) ?l (congestion_snd c) ?c = Some (s, d)"
    using sender_NAK_total [OF assms(2), of "srtConn_pop env now" "congestion_snd c" ?c] by auto
  have e: "retransmitted (e\<lparr>congestion_snd := s\<rparr>) = retransmitted e" "retransmitted (e\<lparr>statistics := st\<rparr>) = retransmitted e"
    for e :: "'a srtConn" and s st by (simp_all add: retransmitted_def)
  have "retransmitted d = retransmitted c @ concat (map (\<lambda>q. replicate (reported ?l q) (seqno q)) (rev (lossList (congestion_snd c))))"
    using s nak_packets_pop [OF assms(2), of env now "rev (lossList (congestion_snd c))" "congestion_snd c" ?c]
    by (auto simp: sender_NAK_def e reported_def split: if_splits option.splits)
  then show ?thesis using s assms(1) by (simp add: srtConn_handleNAK_def e Let_def)
qed

section \<open>From the report to the retransmission\<close>

lemma control_over_wire:
  assumes "marshal (Some []) = Inr d" "ct < 0x8000" "pkt_MarshalCIF (control_pkt now c ct st) marshal = (e, p)"
  shows "\<exists>q. over_wire addr (pop_address c' p) = Some q \<and> payload q = Some d \<and> IsControlPacket (header q)
    \<and> ControlType (header q) = ct \<and> SubType (header q) = st"
proof -
  have p: "p = (control_pkt now c ct st)\<lparr>payload := Some d\<rparr>"
    using assms(1,3) by (simp add: pkt_MarshalCIF_def control_pkt_def NewPacket_def Let_def)
  then have "wf_header (header (pop_address c' p))" "payload (pop_address c' p) = Some d"
    using assms(2) by (simp_all add: wf_header_def pop_address_def control_pkt_def Let_def)
  from over_wire_packet [OF this, of addr] show ?thesis
    by (simp add: p received_header_def pop_address_def control_pkt_def Let_def)
qed

lemma sendNAK_outbox:
  "outbox (srtConn_sendNAK now l c) = outbox c @ [pop_address c (snd (pkt_MarshalCIF (control_pkt now c CTRLTYPE_NAK 0)
     (CIFNAK_Marshal \<lparr>LostPacketSequenceNumber = l\<rparr>)))]"
  by (simp add: srtConn_sendNAK_def pop_control_def pop_address_def Let_def split: prod.split)

lemma NAK_arrives:
  assumes "valid_NAK \<lparr>LostPacketSequenceNumber = l\<rparr>" "even (length l)"
  shows "\<exists>q q' d. outbox (srtConn_sendNAK now l b) = outbox b @ [q] \<and> over_wire addr q = Some q'
    \<and> srtConn_handlePacket env now' (Some q') a = Some d
    \<and> retransmitted d = retransmitted a @ concat (map (\<lambda>q. replicate (reported l q) (seqno q)) (rev (lossList (congestion_snd a))))"
proof -
  obtain x where x: "CIFNAK_Marshal \<lparr>LostPacketSequenceNumber = l\<rparr> (Some []) = Inr x"
      "CIFNAK_Unmarshal \<lparr>LostPacketSequenceNumber = []\<rparr> x = Inr \<lparr>LostPacketSequenceNumber = l\<rparr>"
    using nak.round_trip [OF assms(1), of "[]"] by auto
  obtain e p where m: "pkt_MarshalCIF (control_pkt now b CTRLTYPE_NAK 0) (CIFNAK_Marshal \<lparr>LostPacketSequenceNumber = l\<rparr>) = (e, p)"
    by fastforce
  obtain q' where q': "over_wire addr (pop_address b p) = Some q'" "payload q' = Some x" "IsControlPacket (header q')"
      "ControlType (header q') = CTRLTYPE_NAK"
    using control_over_wire [OF x(1) _ m] by auto
  have "pkt_UnmarshalCIF q' CIFNAK_Unmarshal \<lparr>LostPacketSequenceNumber = []\<rparr> = Inr \<lparr>LostPacketSequenceNumber = l\<rparr>"
    using q' x(2) by (simp add: pkt_UnmarshalCIF_def)
  from handleNAK_retransmits [OF this, of env now' "reset_idle now' a"] assms(2) obtain d where
    "srtConn_handleNAK env now' q' (reset_idle now' a) = Some d"
    "retransmitted d = retransmitted a @ concat (map (\<lambda>q. replicate (reported l q) (seqno q)) (rev (lossList (congestion_snd a))))"
    by (auto simp: reset_idle_def retransmitted_def)
  then show ?thesis
    using q' m by (auto simp: sendNAK_outbox srtConn_handlePacket_def srtConn_handleControl_def Let_def)
qed

lemma report_of_missing:
  assumes r: "recv_ok r" and near: "\<forall>u \<in> set (unacked s). close u (sack r) \<and> close u (smax r)" and rep: "represents t s"
    and rs: "rs = gaps (sbuf r) (sack r)" "\<forall>(x, y) \<in> set rs. x \<le> y" "sorted_wrt (\<lambda>r s. Suc (snd r) < fst s) rs"
    and cover: "\<forall>i. (\<exists>(x, y) \<in> set rs. x \<le> i \<and> i \<le> y) \<longleftrightarrow> i \<in> M" and M: "M = {i. sack r < i \<and> i < smax r \<and> i \<notin> set (sbuf r)}"
  shows "valid_loss_list (num (Suc (sack r))) (range_list rs)"
    "concat (map (\<lambda>q. replicate (reported (range_list rs) q) (seqno q)) (rev (lossList t))) = map num (rev (filter (\<lambda>u. u \<in> M) (unacked s)))"
proof -
  have ends: "x \<in> M \<and> y \<in> M \<and> Suc y \<in> set (sbuf r)" if "(x, y) \<in> set rs" for x y
    using that rs cover gaps_bounds [of "sbuf r" x y "sack r"] r unfolding recv_ok_def by fastforce
  have "\<forall>(x, y) \<in> set rs. Suc (sack r) \<le> x \<and> x \<le> y \<and> y < Suc (sack r) + half"
  proof (clarify)
    fix x y assume xy: "(x, y) \<in> set rs"
    then have "Suc y < sdel r + half" "sdel r \<le> sack r" using ends recv_ok_window [OF r] r unfolding recv_ok_def by blast+
    then show "Suc (sack r) \<le> x \<and> x \<le> y \<and> y < Suc (sack r) + half" using ends [OF xy] rs(2) xy M by auto
  qed
  then show "valid_loss_list (num (Suc (sack r))) (range_list rs)" by (rule range_list_valid [OF _ rs(3)])
  have one: "reported (range_list rs) q = (if u \<in> M then 1 else 0)" if "u \<in> set (unacked s)" "seqno q = num u" for u q
  proof -
    have "close u i" if "i \<in> M" for i using near \<open>u \<in> _\<close> \<open>i \<in> M\<close> M by (fastforce simp: close_def)
    then have "\<forall>(x, y) \<in> set rs. close u x \<and> close u y \<and> x \<le> y" using ends rs(2) by fastforce
    from reported_range_list [OF that(2) this rs(3)] show ?thesis using cover by simp
  qed
  have seq: "map seqno (lossList t) = map num (unacked s)" using rep by (simp add: represents_def)
  then have rev: "map seqno (rev (lossList t)) = map num (rev (unacked s))" by (simp only: rev_map [symmetric])
  have "concat (map (\<lambda>q. replicate (reported (range_list rs) q) (seqno q)) ps) = map num (filter (\<lambda>u. u \<in> M) us)"
    if "map seqno ps = map num us" "set us \<subseteq> set (unacked s)" for ps us
    using that
  proof (induction ps arbitrary: us)
    case (Cons q ps)
    then obtain u vs where us: "us = u # vs" by (cases us) auto
    then show ?case using Cons one [of u q] by auto
  qed auto
  from this [OF rev]
  show "concat (map (\<lambda>q. replicate (reported (range_list rs) q) (seqno q)) (rev (lossList t))) = map num (rev (filter (\<lambda>u. u \<in> M) (unacked s)))"
    by (simp add: rev_filter)
qed

text \<open>
  C8. Loss recovery, end to end. When its loss report is due, a connection that has not received some packets
  before the highest one sends one loss report; the packet goes over the wire, and the connection that receives
  it sends again exactly the missing packets among those it still holds, each once, from the newest to the
  oldest. Without a missing packet no report is sent. The report must fit into one packet, and the packets that
  the sender holds must be within half of the sequence numbers of the receiver's.
\<close>

theorem loss_recovery:
  assumes "rcv_represents (congestion_recv b) r" "recv_ok r"
    and "\<not> t - lastPeriodicNAK (congestion_recv b) < periodicNAKInterval (congestion_recv b)"
    and "length (fst (receiver_periodicNAK t (congestion_recv b))) \<le> 364"
    and "represents (congestion_snd a) s" "\<forall>u \<in> set (unacked s). close u (sack r) \<and> close u (smax r)"
    and "M = {i. sack r < i \<and> i < smax r \<and> i \<notin> set (sbuf r)}"
    and "b' = snd (receiver_Tick_nak (srtConn_sendNAK now) t (congestion_recv b) b)"
  shows "if M = {} then outbox b' = outbox b
    else \<exists>q q' a'. outbox b' = outbox b @ [q] \<and> over_wire addr q = Some q'
      \<and> srtConn_handlePacket env now' (Some q') a = Some a'
      \<and> retransmitted a' = retransmitted a @ map num (rev (filter (\<lambda>u. u \<in> M) (unacked s)))"
proof -
  define rs where "rs = gaps (sbuf r) (sack r)"
  note g = receiver_NAK_gaps [OF assms(1-3) rs_def]
  have rs: "\<forall>(x, y) \<in> set rs. x \<le> y" "sorted_wrt (\<lambda>r s. Suc (snd r) < fst s) rs" using g by blast+
  have l: "fst (receiver_periodicNAK t (congestion_recv b)) = range_list rs" using g by blast
  have cover: "\<forall>i. (\<exists>(x, y) \<in> set rs. x \<le> i \<and> i \<le> y) \<longleftrightarrow> i \<in> M" using g assms(7) by blast
  note m = report_of_missing [OF assms(2,6,5) rs_def rs cover assms(7)]
  have b': "b' = (if range_list rs = [] then b else srtConn_sendNAK now (range_list rs) b)"
    using l assms(8) by (simp add: receiver_Tick_nak_def case_prod_beta Let_def)
  have empty: "range_list rs = [] \<longleftrightarrow> M = {}"
  proof (cases rs)
    case Nil then show ?thesis using cover by auto
  next
    case (Cons xy rs') then show ?thesis using cover rs(1) by (cases xy) (fastforce simp: Cons)
  qed
  have "valid_NAK \<lparr>LostPacketSequenceNumber = range_list rs\<rparr>"
    using m(1) assms(4) l by (auto simp: valid_NAK_def)
  from NAK_arrives [OF this even_range_list(1), of now b addr env now' a] show ?thesis
    using b' empty m(2) by auto
qed

theorem loss_recovery_witness:
  "\<exists>q q' a'. outbox (snd (receiver_Tick_nak (srtConn_sendNAK 0) 100 sample_receiver ((sample_conn None)\<lparr>congestion_recv := sample_receiver\<rparr>))) = [q]
    \<and> over_wire None q = Some q'
    \<and> srtConn_handlePacket sample_env 0 (Some q') ((sample_conn None)\<lparr>congestion_snd := (congestion_snd (sample_conn None))
        \<lparr>nextSequenceNumber := num (half + 4), lossList := map (\<lambda>i. numbered (num (half + i)) 7 [1]) [1, 2, 3]\<rparr>\<rparr>) = Some a'
    \<and> retransmitted a' = [num (half + 2), num (half + 1)]"
proof -
  let ?b = "(sample_conn None)\<lparr>congestion_recv := sample_receiver\<rparr>"
  let ?s = "(congestion_snd (sample_conn None))\<lparr>nextSequenceNumber := num (half + 4), lossList := map (\<lambda>i. numbered (num (half + i)) 7 [1]) [1, 2, 3]\<rparr>"
  let ?a = "(sample_conn None)\<lparr>congestion_snd := ?s\<rparr>" and ?u = "\<lparr>next_no = half + 4, unacked = [half + 1, half + 2, half + 3], queued = []\<rparr>"
  have b: "rcv_represents (congestion_recv ?b) sample_recv_spec" "congestion_recv ?b = sample_receiver"
    using sample_receiver_represents(1) by simp_all
  have due: "\<not> 100 - lastPeriodicNAK (congestion_recv ?b) < periodicNAKInterval (congestion_recv ?b)"
    by (simp add: sample_receiver_fields)
  have "gaps (sbuf sample_recv_spec) (sack sample_recv_spec) = [(half + 1, half + 2)]"
    by (simp add: sample_recv_spec_def)
  then have len: "length (fst (receiver_periodicNAK 100 (congestion_recv ?b))) \<le> 364"
    using receiver_NAK_gaps [OF b(1) sample_receiver_represents(2) due refl] by simp
  have a: "represents (congestion_snd ?a) ?u"
    by (simp add: represents_def numbered_def sample_conn_def newSRTConn_def NewSender_def Let_def)
  have near: "\<forall>u \<in> set (unacked ?u). close u (sack sample_recv_spec) \<and> close u (smax sample_recv_spec)"
    by (simp add: close_def sample_recv_spec_def half_def)
  have M: "{i. sack sample_recv_spec < i \<and> i < smax sample_recv_spec \<and> i \<notin> set (sbuf sample_recv_spec)} = {half + 1, half + 2}"
    by (auto simp: sample_recv_spec_def)
  have o: "outbox ((sample_conn None)\<lparr>congestion_recv := x\<rparr>) = []" "retransmitted ((sample_conn None)\<lparr>congestion_snd := y\<rparr>) = []" for x y
    by (simp_all add: retransmitted_def sample_conn_def newSRTConn_def Let_def)
  from loss_recovery [OF b(1) sample_receiver_represents(2) due len a near refl refl, of 0 None sample_env 0]
  show ?thesis unfolding M by (simp add: o)
qed

end
