(* ===== verification/Spec2Isabelle.thy ===== *)
theory Spec2Isabelle
  imports Packet_CIF Packet_Handshake Live_Receive_Run Crypto Rand Config Connection_Run Connection_Invariant Loss_Recovery
begin

text \<open>
  A verification development for gosrt, an implementation of the Secure Reliable Transport protocol in Go.

  \<^bold>\<open>Parts of the program and their theories.\<close>

  \<^item> \<open>Circular\<close>: \<^verbatim>\<open>circular/circular.go\<close>. Sequence numbers on a circle, on 32-bit words.
  \<^item> \<open>Packet\<close>, \<open>Packet_CIF\<close>, \<open>Packet_Handshake\<close>: \<^verbatim>\<open>packet/packet.go\<close>. The packet header, the
    data and control packets, and the control information fields (handshake and its extensions, key
    material, acknowledgement, loss report, shutdown): one record per struct, one function per
    \<^verbatim>\<open>Marshal\<close> and \<^verbatim>\<open>Unmarshal\<close> method. Errors and panics are values of \<open>'e fault\<close>.
  \<^item> \<open>Net_IP\<close>: \<^verbatim>\<open>net/ip.go\<close> and the part of Go's \<^verbatim>\<open>net\<close> package it uses.
  \<^item> \<open>Config\<close>: \<^verbatim>\<open>config.go\<close>, over \<open>Net_URL\<close>, the escaping and number formats of Go that it uses.
  \<^item> \<open>Seq_Number\<close>: unbounded packet numbers; \<open>num k\<close> is the sequence number of packet \<open>k\<close>.
  \<^item> \<open>Float64\<close>: the floating point arithmetic of the rate estimates.
  \<^item> \<open>Live_Send\<close>: \<^verbatim>\<open>congestion/live/send.go\<close>; \<open>Live_Receive\<close>, \<open>Live_Receive_Run\<close>:
    \<^verbatim>\<open>congestion/live/receive.go\<close>. One record for each struct, one function per method. A method that
    takes its lock several times is the composition of its critical sections, and an execution is a sequence
    of critical sections. Callbacks are functions on a state of their own.

  \<^item> \<open>Crypto\<close>: \<^verbatim>\<open>crypto/crypto.go\<close> and the vendored key wrap; \<open>Rand\<close>: \<^verbatim>\<open>rand/rand.go\<close> and
    \<^verbatim>\<open>net/syncookie.go\<close>. AES, PBKDF2, MD5 and the system's random source are arguments.

  \<^bold>\<open>What the lemmas show.\<close> The comparisons of sequence numbers are the order of a window; every message
  that is marshalled is read back; the sender and the receiver refine specifications over unbounded packet
  numbers, from which order, exactness of reports and counters, and progress of delivery follow.
\<close>

end
